theory Spec2Isabelle
  imports Main "HOL-Library.Word"
begin

unbundle bit_operations_syntax

section \<open>Values read from the chain client\<close>

text \<open>
  Both scripts are duck-typed JavaScript over objects produced by the chain client.
  A byte of a \<^verbatim>\<open>Uint8Array\<close> is an 8-bit word. Exceptions are values: a function
  that can throw returns either the error or its result, and a function that also mutates
  state returns the state reached together with how it completed, because JavaScript keeps
  every effect made before a throw.
\<close>

type_synonym byte = "8 word"

datatype js_error =
    TypeError
  | RegistryError string
  | RpcError string

datatype completion = Returned | Thrown js_error

text \<open>
  \<^verbatim>\<open>callMethod\<close> is the value the matcher tests with
  \<^verbatim>\<open>callMethod.section\<close> and \<^verbatim>\<open>callMethod.method\<close>. The record holds
  what these two reads give, as text.
\<close>

record callMethod =
  call_section :: string
  call_method :: string

text \<open>
  The values the matcher probes. Each constructor fixes which probes of the source succeed:
  \<^item> \<open>Undefined\<close>, \<open>Null\<close>: reading any property throws a TypeError;
  \<^item> \<open>Codec_Num i\<close>: a codec integer, \<^verbatim>\<open>toNumber()\<close> gives \<open>i\<close>, \<^verbatim>\<open>toHuman()\<close> exists;
  \<^item> \<open>Codec_Other s\<close>: any other codec value, only \<^verbatim>\<open>toHuman()\<close> exists;
  \<^item> \<open>Array xs\<close>: a plain JavaScript array (\<^verbatim>\<open>Array.isArray\<close> holds, no
    \<^verbatim>\<open>toArray\<close>, no \<^verbatim>\<open>toHuman\<close>);
  \<^item> \<open>Codec_Vec xs\<close>: a codec vector, \<^verbatim>\<open>toArray()\<close> gives \<open>xs\<close>;
  \<^item> \<open>Codec_Call m as\<close>: an object with the properties \<^verbatim>\<open>method\<close> and
    \<^verbatim>\<open>args\<close>; \<open>m\<close> holds what the reads \<^verbatim>\<open>.section\<close> and \<^verbatim>\<open>.method\<close> give
    on its property \<^verbatim>\<open>method\<close>, and \<open>as\<close> is the array \<^verbatim>\<open>args\<close>. These are the
    reads the matcher makes on an element of a batch (\<^verbatim>\<open>nested.method\<close>, passed on as
    \<^verbatim>\<open>callMethod\<close>, and \<^verbatim>\<open>nested.args\<close>) and on the inner call of an
    asDerivative (\<^verbatim>\<open>innerCall.method.section\<close>, \<^verbatim>\<open>innerCall.method.method\<close>,
    \<^verbatim>\<open>innerCall.args\<close>).
\<close>

datatype jsval =
    Undefined
  | Null
  | Codec_Num int
  | Codec_Other string
  | Array "jsval list"
  | Codec_Vec "jsval list"
  | Codec_Call callMethod "jsval list"

text \<open>
  A call as the client library decodes it has the properties \<^verbatim>\<open>section\<close> and
  \<^verbatim>\<open>method\<close>, both strings, and \<^verbatim>\<open>args\<close>. Its property \<^verbatim>\<open>method\<close> is thus the
  name of the action, a non-empty string, and the reads \<^verbatim>\<open>.section\<close> and \<^verbatim>\<open>.method\<close>
  on a string give undefined. Undefined is different from every name the matcher compares
  with (lines 60, 66, 93 and 94) and prints as \<^verbatim>\<open>undefined\<close> in the template literal of
  line 85, so the two texts \<^verbatim>\<open>undefined\<close> stand for it. Line 61, which calls
  \<^verbatim>\<open>toString\<close> on \<^verbatim>\<open>callMethod.method\<close>, is reached only when the section reads
  \<^verbatim>\<open>utility\<close>. The section and the action of a decoded call are therefore out of the
  matcher's reach when it goes through the property \<^verbatim>\<open>method\<close>: only the top-level
  call, which \<^verbatim>\<open>main\<close> passes as \<^verbatim>\<open>ex.method\<close>, is read by its own section and
  method.
\<close>

definition string_reads :: callMethod where
  "string_reads = \<lparr>call_section = ''undefined'', call_method = ''undefined''\<rparr>"

definition library_call :: "string \<Rightarrow> string \<Rightarrow> jsval list \<Rightarrow> jsval" where
  "library_call section method args = Codec_Call string_reads args"

text \<open>\<^verbatim>\<open>xs[i]\<close>: reading past the end of a JavaScript array gives undefined.\<close>

definition js_index :: "jsval list \<Rightarrow> nat \<Rightarrow> jsval" where
  "js_index xs i = (if i < length xs then xs ! i else Undefined)"

text \<open>\<^verbatim>\<open>v.toNumber()\<close>\<close>

definition toNumber :: "jsval \<Rightarrow> js_error + int" where
  "toNumber v = (case v of Codec_Num i \<Rightarrow> Inr i | _ \<Rightarrow> Inl TypeError)"

text \<open>
  \<^verbatim>\<open>a.toHuman()\<close>: the human-readable rendering is opaque to the scripts; the model
  keeps the value itself as its rendering.
\<close>

definition toHuman :: "jsval \<Rightarrow> js_error + jsval" where
  "toHuman v = (case v of
       Undefined \<Rightarrow> Inl TypeError
     | Null \<Rightarrow> Inl TypeError
     | Array xs \<Rightarrow> Inl TypeError
     | _ \<Rightarrow> Inr v)"

text \<open>\<^verbatim>\<open>xs.map(f)\<close> for an \<open>f\<close> that can throw: the first throw ends the map.\<close>

fun map_throwing :: "('a \<Rightarrow> js_error + 'b) \<Rightarrow> 'a list \<Rightarrow> js_error + 'b list" where
  "map_throwing f [] = Inr []"
| "map_throwing f (x # xs) =
     (case f x of
        Inl e \<Rightarrow> Inl e
      | Inr y \<Rightarrow> (case map_throwing f xs of Inl e \<Rightarrow> Inl e | Inr ys \<Rightarrow> Inr (y # ys)))"

section \<open>The account deriver\<close>

text \<open>
  \<^verbatim>\<open>stringToU8a\<close> on an ASCII string gives its character codes, and
  \<^verbatim>\<open>u8aConcat\<close> joins byte arrays.
\<close>

definition stringToU8a :: "string \<Rightarrow> byte list" where
  "stringToU8a s = map of_char s"

definition u8aConcat :: "byte list list \<Rightarrow> byte list" where
  "u8aConcat bss = concat bss"

definition DERIVATION_PREFIX :: "byte list" where
  "DERIVATION_PREFIX = stringToU8a ''modlpy/utilisuba''"

text \<open>
  JavaScript's \<^verbatim>\<open>a & b\<close> on integer-valued numbers: both operands are reduced to
  32-bit two's complement (ToInt32), combined bitwise, and the result is read as a signed
  32-bit integer.
\<close>

definition js_bitand :: "int \<Rightarrow> int \<Rightarrow> int" where
  "js_bitand a b = sint ((word_of_int a :: 32 word) AND (word_of_int b :: 32 word))"

text \<open>Storing a number into a \<^verbatim>\<open>Uint8Array\<close> keeps it modulo 256.\<close>

definition to_uint8 :: "int \<Rightarrow> byte" where
  "to_uint8 n = word_of_int n"

text \<open>
  What \<^verbatim>\<open>api.registry.createType('AccountId32', v)\<close> is given: a string (an
  address) or a byte array.
\<close>

datatype account_source = From_String string | From_U8a "byte list"

text \<open>
  The \<^verbatim>\<open>api\<close> object is a parameter of the source and belongs to the client library.
  \<open>createType\<close> stands for \<^verbatim>\<open>api.registry.createType('AccountId32', v)\<close>: it throws or
  gives an AccountId32, represented by the bytes its \<^verbatim>\<open>toU8a()\<close> returns.
  \<open>toString\<close> is the \<^verbatim>\<open>toString()\<close> of an AccountId32.
\<close>

record api =
  createType :: "account_source \<Rightarrow> js_error + byte list"
  toString :: "byte list \<Rightarrow> string"

text \<open>
  The hash \<^verbatim>\<open>blake2AsU8a(raw, bitLength)\<close> is imported from the crypto library; every
  function that reaches it takes it as the parameter \<open>blake2AsU8a\<close>.
\<close>

type_synonym hash_fn = "byte list \<Rightarrow> nat \<Rightarrow> byte list"

definition deriveAccountCorrect :: "hash_fn \<Rightarrow> api \<Rightarrow> account_source \<Rightarrow> int \<Rightarrow> js_error + byte list" where
  "deriveAccountCorrect blake2AsU8a api signer derivativeIndex =
     (case createType api signer of
        Inl e \<Rightarrow> Inl e
      | Inr accountBytes \<Rightarrow>
          (let indexByte = [to_uint8 (js_bitand derivativeIndex 255)];
               raw = u8aConcat [DERIVATION_PREFIX, accountBytes, indexByte];
               hash = blake2AsU8a raw 256
           in createType api (From_U8a hash)))"

section \<open>The recursive call matcher\<close>

text \<open>One object passed to \<^verbatim>\<open>writeDetail\<close>.\<close>

record detail =
  d_block :: int
  d_extrinsicIndex :: nat
  d_signer :: string
  d_derivativeIndex :: int
  d_derivedAccount :: string
  d_innerCall :: string
  d_innerCallArgs :: "jsval list"

text \<open>
  Everything the scan mutates: the \<^verbatim>\<open>counters\<close> object of \<^verbatim>\<open>main\<close>, the
  details written so far (\<^verbatim>\<open>writeDetail\<close> appends to the output stream), and the
  process-wide \<^verbatim>\<open>debugCounters\<close>. Console output is not part of the state.
\<close>

record state =
  counters_total :: nat
  counters_unique :: "string set"
  details :: "detail list"
  debug_totalExtrinsics :: nat
  debug_utilityExtrinsics :: nat
  debug_utilityMethods :: "string \<rightharpoonup> nat"

text \<open>
  \<^verbatim>\<open>debugCounters.utilityMethods[methodName] = (debugCounters.utilityMethods[methodName] || 0) + 1\<close>
\<close>

definition tally_utilityMethod :: "string \<Rightarrow> state \<Rightarrow> state" where
  "tally_utilityMethod methodName st =
     st\<lparr>debug_utilityMethods := (debug_utilityMethods st)
          (methodName \<mapsto> (case debug_utilityMethods st methodName of None \<Rightarrow> 0 | Some c \<Rightarrow> c) + 1)\<rparr>"

text \<open>
  The array the batch branch walks:
  \<^verbatim>\<open>typeof callsVec.toArray === 'function' ? callsVec.toArray() : Array.isArray(callsVec) ? callsVec : []\<close>.
  Reading \<^verbatim>\<open>callsVec.toArray\<close> on undefined or null throws.
\<close>

definition callsArr_of :: "jsval \<Rightarrow> js_error + jsval list" where
  "callsArr_of callsVec = (case callsVec of
       Undefined \<Rightarrow> Inl TypeError
     | Null \<Rightarrow> Inl TypeError
     | Codec_Vec xs \<Rightarrow> Inr xs
     | Array xs \<Rightarrow> Inr xs
     | _ \<Rightarrow> Inr [])"

text \<open>
  The object literal passed to \<^verbatim>\<open>writeDetail\<close> (lines 79 to 87). Evaluating it
  reads \<^verbatim>\<open>innerCall.method.section\<close> and \<^verbatim>\<open>innerCall.method.method\<close> and maps
  \<^verbatim>\<open>toHuman\<close> over \<^verbatim>\<open>innerCall.args\<close>; each of these throws on a value that is
  not a call.
\<close>

definition build_detail :: "int \<Rightarrow> nat \<Rightarrow> string \<Rightarrow> int \<Rightarrow> string \<Rightarrow> jsval \<Rightarrow> js_error + detail" where
  "build_detail blockNumber extrinsicIndex signer derivativeIndex derivedAccount innerCall =
     (case innerCall of
        Codec_Call m as \<Rightarrow>
          (case map_throwing toHuman as of
             Inl e \<Rightarrow> Inl e
           | Inr humans \<Rightarrow>
               Inr \<lparr>d_block = blockNumber,
                    d_extrinsicIndex = extrinsicIndex,
                    d_signer = signer,
                    d_derivativeIndex = derivativeIndex,
                    d_derivedAccount = derivedAccount,
                    d_innerCall = call_section m @ ''.'' @ call_method m,
                    d_innerCallArgs = humans\<rparr>)
      | _ \<Rightarrow> Inl TypeError)"

text \<open>
  The asDerivative branch (lines 67 to 88 of checkExtrinsic.js), in the order of the
  source: read the index, take the inner call, derive the account, update the counters,
  build the detail object, write it.
\<close>

definition match_asDerivative ::
  "hash_fn \<Rightarrow> jsval list \<Rightarrow> api \<Rightarrow> int \<Rightarrow> nat \<Rightarrow> string \<Rightarrow> state \<Rightarrow> state \<times> completion" where
  "match_asDerivative blake2AsU8a callArgs api blockNumber extrinsicIndex signer st =
     (case toNumber (js_index callArgs 0) of
        Inl e \<Rightarrow> (st, Thrown e)
      | Inr derivativeIndex \<Rightarrow>
          (let innerCall = js_index callArgs 1 in
           case deriveAccountCorrect blake2AsU8a api (From_String signer) derivativeIndex of
             Inl e \<Rightarrow> (st, Thrown e)
           | Inr acc \<Rightarrow>
               (let derivedAccount = toString api acc;
                    st1 = st\<lparr>counters_unique := insert derivedAccount (counters_unique st)\<rparr>;
                    st2 = st1\<lparr>counters_total := counters_total st1 + 1\<rparr>
                in case build_detail blockNumber extrinsicIndex signer derivativeIndex
                          derivedAccount innerCall of
                     Inl e \<Rightarrow> (st2, Thrown e)
                   | Inr d \<Rightarrow> (st2\<lparr>details := details st2 @ [d]\<rparr>, Returned))))"

text \<open>The sequence a batch walks is smaller than the arguments it is read from.\<close>

lemma size_js_index: "size (js_index xs i) \<le> size_list size xs"
proof (cases "i < length xs")
  case True
  then have "xs ! i \<in> set xs" by simp
  then have "size (xs ! i) \<le> size_list size xs"
    by (simp add: size_list_estimation')
  with True show ?thesis by (simp add: js_index_def)
next
  case False
  then show ?thesis by (simp add: js_index_def)
qed

lemma size_callsArr_of: "callsArr_of v = Inr xs \<Longrightarrow> size_list size xs \<le> size v"
  by (cases v) (auto simp: callsArr_of_def)

lemma size_callsArr_of_index:
  "callsArr_of (js_index callArgs 0) = Inr callsArr \<Longrightarrow> size_list size callsArr \<le> size_list size callArgs"
  using size_callsArr_of [of "js_index callArgs 0" callsArr] size_js_index [of callArgs 0]
  by simp

text \<open>
  \<^verbatim>\<open>checkAsDerivative\<close>, with \<^verbatim>\<open>callsArr.forEach\<close> as the second function: an
  element is visited when \<^verbatim>\<open>nested && nested.method\<close> is truthy, and a throw inside a
  visit ends the loop.
\<close>

function checkAsDerivative ::
    "hash_fn \<Rightarrow> callMethod \<Rightarrow> jsval list \<Rightarrow> api \<Rightarrow> int \<Rightarrow> nat \<Rightarrow> string \<Rightarrow> nat \<Rightarrow> state \<Rightarrow> state \<times> completion"
  and forEach_nested ::
    "hash_fn \<Rightarrow> jsval list \<Rightarrow> api \<Rightarrow> int \<Rightarrow> nat \<Rightarrow> string \<Rightarrow> nat \<Rightarrow> state \<Rightarrow> state \<times> completion"
where
  "checkAsDerivative blake2AsU8a callMethod callArgs api blockNumber extrinsicIndex signer depth st =
     (let st0 = (if depth = 0 \<and> call_section callMethod = ''utility''
                 then tally_utilityMethod (call_method callMethod) st else st)
      in if call_section callMethod = ''utility'' \<and> call_method callMethod = ''asDerivative''
         then match_asDerivative blake2AsU8a callArgs api blockNumber extrinsicIndex signer st0
         else if call_section callMethod = ''utility''
                 \<and> call_method callMethod \<in> set [''batch'', ''batchAll'']
         then (case callsArr_of (js_index callArgs 0) of
                 Inl e \<Rightarrow> (st0, Thrown e)
               | Inr callsArr \<Rightarrow>
                   forEach_nested blake2AsU8a callsArr api blockNumber extrinsicIndex signer (depth + 1) st0)
         else (st0, Returned))"
| "forEach_nested blake2AsU8a [] api blockNumber extrinsicIndex signer depth st = (st, Returned)"
| "forEach_nested blake2AsU8a (nested # rest) api blockNumber extrinsicIndex signer depth st =
     (case nested of
        Codec_Call m as \<Rightarrow>
          (case checkAsDerivative blake2AsU8a m as api blockNumber extrinsicIndex signer depth st of
             (st', Returned) \<Rightarrow>
               forEach_nested blake2AsU8a rest api blockNumber extrinsicIndex signer depth st'
           | (st', Thrown e) \<Rightarrow> (st', Thrown e))
      | _ \<Rightarrow> forEach_nested blake2AsU8a rest api blockNumber extrinsicIndex signer depth st)"
  by pat_completeness auto

termination
  by (relation "measure (\<lambda>x. case x of
          Inl (h, m, args, rest) \<Rightarrow> 2 * size_list size args + 1
        | Inr (h, xs, rest) \<Rightarrow> 2 * size_list size xs)")
     (auto dest: size_callsArr_of_index)

section \<open>The scan of \<^verbatim>\<open>main\<close>\<close>

text \<open>
  An extrinsic as \<^verbatim>\<open>main\<close> reads it: \<^verbatim>\<open>ex.signer\<close> (\<open>None\<close> when it is
  falsy, otherwise the address its \<^verbatim>\<open>toString()\<close> gives), \<^verbatim>\<open>ex.method\<close>,
  \<^verbatim>\<open>ex.method.args\<close> and \<^verbatim>\<open>ex.args\<close>. The client library gives every extrinsic a
  signer object: for an extrinsic that carries no signature it is the address of 32 zero
  bytes, which is truthy. Whether an extrinsic is signed is a property of its own
  (\<^verbatim>\<open>isSigned\<close>) that \<^verbatim>\<open>main\<close> does not read.
\<close>

record extrinsic =
  ex_signer :: "string option"
  ex_method :: callMethod
  ex_method_args :: "jsval list option"
  ex_args :: "jsval list option"

text \<open>\<^verbatim>\<open>ex.method.args || ex.args || []\<close> (an array is truthy even when empty).\<close>

definition extrinsic_args :: "extrinsic \<Rightarrow> jsval list" where
  "extrinsic_args ex =
     (case ex_method_args ex of
        Some as \<Rightarrow> as
      | None \<Rightarrow> (case ex_args ex of Some as \<Rightarrow> as | None \<Rightarrow> []))"

text \<open>The body of \<^verbatim>\<open>extrinsics.forEach((ex, idx) => ...)\<close>, lines 298 to 325.\<close>

definition process_extrinsic ::
  "hash_fn \<Rightarrow> api \<Rightarrow> int \<Rightarrow> nat \<Rightarrow> extrinsic \<Rightarrow> state \<Rightarrow> state \<times> completion" where
  "process_extrinsic blake2AsU8a api blockNumber idx ex st =
     (let st1 = st\<lparr>debug_totalExtrinsics := debug_totalExtrinsics st + 1\<rparr>
      in case ex_signer ex of
           None \<Rightarrow> (st1, Returned)
         | Some signer \<Rightarrow>
             if call_section (ex_method ex) = ''utility''
             then checkAsDerivative blake2AsU8a (ex_method ex) (extrinsic_args ex) api
                    blockNumber idx signer 0
                    (st1\<lparr>debug_utilityExtrinsics := debug_utilityExtrinsics st1 + 1\<rparr>)
             else (st1, Returned))"

fun forEach_extrinsic ::
  "hash_fn \<Rightarrow> api \<Rightarrow> int \<Rightarrow> nat \<Rightarrow> extrinsic list \<Rightarrow> state \<Rightarrow> state \<times> completion" where
  "forEach_extrinsic blake2AsU8a api blockNumber idx [] st = (st, Returned)"
| "forEach_extrinsic blake2AsU8a api blockNumber idx (ex # exs) st =
     (case process_extrinsic blake2AsU8a api blockNumber idx ex st of
        (st', Returned) \<Rightarrow> forEach_extrinsic blake2AsU8a api blockNumber (idx + 1) exs st'
      | (st', Thrown e) \<Rightarrow> (st', Thrown e))"

text \<open>
  The loop over the fetched blocks of one batch (lines 294 to 326): block \<open>i\<close> of the batch
  is processed under the number \<^verbatim>\<open>batch[i]\<close>.
\<close>

fun process_blocks ::
  "hash_fn \<Rightarrow> api \<Rightarrow> (int \<times> extrinsic list) list \<Rightarrow> state \<Rightarrow> state \<times> completion" where
  "process_blocks blake2AsU8a api [] st = (st, Returned)"
| "process_blocks blake2AsU8a api ((blockNumber, extrinsics) # rest) st =
     (case forEach_extrinsic blake2AsU8a api blockNumber 0 extrinsics st of
        (st', Returned) \<Rightarrow> process_blocks blake2AsU8a api rest st'
      | (st', Thrown e) \<Rightarrow> (st', Thrown e))"

text \<open>
  \<^verbatim>\<open>chunkArray(arr, size)\<close>: the loop \<^verbatim>\<open>for (i = 0; i < arr.length; i += size)\<close>
  pushes \<^verbatim>\<open>arr.slice(i, i + size)\<close>. With size 0 the loop never ends, which is the
  value \<open>None\<close>.
\<close>

partial_function (option) chunkArray_loop ::
  "'a list \<Rightarrow> nat \<Rightarrow> nat \<Rightarrow> 'a list list \<Rightarrow> 'a list list option" where
  "chunkArray_loop arr size' i chunks =
     (if i < length arr
      then chunkArray_loop arr size' (i + size') (chunks @ [take size' (drop i arr)])
      else Some chunks)"

definition chunkArray :: "'a list \<Rightarrow> nat \<Rightarrow> 'a list list option" where
  "chunkArray arr size' = chunkArray_loop arr size' 0 []"

text \<open>
  \<^verbatim>\<open>Array.from({ length: endBlock - startBlock + 1 }, (_, i) => startBlock + i)\<close>
\<close>

definition allBlocks :: "int \<Rightarrow> int \<Rightarrow> int list" where
  "allBlocks startBlock endBlock =
     map (\<lambda>i. startBlock + int i) [0 ..< nat (endBlock - startBlock + 1)]"

text \<open>
  One batch (lines 282 to 337). \<open>getBlock n\<close> stands for what the two retried fetches
  deliver for block \<open>n\<close>: its extrinsics, or the error left after the last retry;
  \<^verbatim>\<open>Promise.all\<close> fails when one fetch fails. The \<^verbatim>\<open>catch\<close> of the batch logs the
  error and the scan goes on with the next batch, keeping the effects made so far.
\<close>

definition process_batch ::
  "hash_fn \<Rightarrow> api \<Rightarrow> (int \<Rightarrow> js_error + extrinsic list) \<Rightarrow> int list \<Rightarrow> state \<Rightarrow> state" where
  "process_batch blake2AsU8a api getBlock batch st =
     (case map_throwing getBlock batch of
        Inl e \<Rightarrow> st
      | Inr blocks \<Rightarrow> fst (process_blocks blake2AsU8a api (zip batch blocks) st))"

fun forEach_batch ::
  "hash_fn \<Rightarrow> api \<Rightarrow> (int \<Rightarrow> js_error + extrinsic list) \<Rightarrow> int list list \<Rightarrow> state \<Rightarrow> state" where
  "forEach_batch blake2AsU8a api getBlock [] st = st"
| "forEach_batch blake2AsU8a api getBlock (batch # batches) st =
     forEach_batch blake2AsU8a api getBlock batches (process_batch blake2AsU8a api getBlock batch st)"

text \<open>
  \<^verbatim>\<open>const counters = { total: 0, unique: new Set() }\<close>, an empty details file and the
  initial \<^verbatim>\<open>debugCounters\<close>.
\<close>

definition initial_state :: state where
  "initial_state =
     \<lparr>counters_total = 0, counters_unique = {}, details = [],
      debug_totalExtrinsics = 0, debug_utilityExtrinsics = 0, debug_utilityMethods = Map.empty\<rparr>"

definition main_scan ::
  "hash_fn \<Rightarrow> api \<Rightarrow> (int \<Rightarrow> js_error + extrinsic list) \<Rightarrow> nat \<Rightarrow> int \<Rightarrow> int \<Rightarrow> state \<Rightarrow> state option" where
  "main_scan blake2AsU8a api getBlock BATCH_SIZE startBlock endBlock st =
     (case chunkArray (allBlocks startBlock endBlock) BATCH_SIZE of
        None \<Rightarrow> None
      | Some batches \<Rightarrow> Some (forEach_batch blake2AsU8a api getBlock batches st))"

section \<open>The derivation inside \<^verbatim>\<open>checkAccountDerivatives\<close>\<close>

text \<open>Lines 160 to 165 of findAsDerivative.js, the body of the loop over \<open>i\<close>.\<close>

definition derived_of_index :: "hash_fn \<Rightarrow> api \<Rightarrow> string \<Rightarrow> int \<Rightarrow> js_error + byte list" where
  "derived_of_index blake2AsU8a api account i =
     (let prefix = stringToU8a ''modlpy/utilisuba''
      in case createType api (From_String account) of
           Inl e \<Rightarrow> Inl e
         | Inr accountBytes \<Rightarrow>
             (let indexByte = [to_uint8 (js_bitand i 255)];
                  raw = u8aConcat [prefix, accountBytes, indexByte];
                  hash = blake2AsU8a raw 256
              in createType api (From_U8a hash)))"

text \<open>
  The loop \<^verbatim>\<open>for (let i = 0; i < 10; i++)\<close>: \<open>account_info\<close> stands for
  \<^verbatim>\<open>api.query.system.account\<close> and gives the free balance and the nonce; an index is
  reported when one of them is positive. The result lists the reported indices with the
  text of the derived account.
\<close>

fun checkAccountDerivatives_loop ::
  "hash_fn \<Rightarrow> api \<Rightarrow> (byte list \<Rightarrow> js_error + nat \<times> nat) \<Rightarrow> string \<Rightarrow> int list \<Rightarrow> js_error + (int \<times> string) list" where
  "checkAccountDerivatives_loop blake2AsU8a api account_info account [] = Inr []"
| "checkAccountDerivatives_loop blake2AsU8a api account_info account (i # is) =
     (case derived_of_index blake2AsU8a api account i of
        Inl e \<Rightarrow> Inl e
      | Inr derived \<Rightarrow>
          (case account_info derived of
             Inl e \<Rightarrow> Inl e
           | Inr (free, nonce) \<Rightarrow>
               (case checkAccountDerivatives_loop blake2AsU8a api account_info account is of
                  Inl e \<Rightarrow> Inl e
                | Inr reported \<Rightarrow>
                    Inr ((if 0 < free \<or> 0 < nonce then [(i, toString api derived)] else []) @ reported))))"

definition checkAccountDerivatives ::
  "hash_fn \<Rightarrow> api \<Rightarrow> (byte list \<Rightarrow> js_error + nat \<times> nat) \<Rightarrow> string option \<Rightarrow> js_error + (int \<times> string) list" where
  "checkAccountDerivatives blake2AsU8a api account_info account =
     (case account of
        None \<Rightarrow> Inr []
      | Some a \<Rightarrow>
          if a = [] then Inr []
          else checkAccountDerivatives_loop blake2AsU8a api account_info a (map int [0 ..< 10]))"

section \<open>The quick scan of \<^verbatim>\<open>findAsDerivativeBlocks\<close>\<close>

text \<open>
  The variables the quick scan updates for an extrinsic (lines 28, 55 and 56 of
  findAsDerivative.js).
\<close>

record quick_scan =
  found :: nat
  hasAsDerivative :: bool
  utilityCount :: nat

text \<open>
  Lines 70 and 71 look at \<^verbatim>\<open>calls.toHuman ? calls.toHuman() : calls\<close>, a rendering made
  by the client library. It is the parameter \<open>shown\<close>: \<open>None\<close> when \<^verbatim>\<open>calls\<close> is falsy
  or the rendering is not an array, otherwise the elements of the array, each as the pair of
  its \<^verbatim>\<open>section\<close> and \<^verbatim>\<open>method\<close> properties, or \<open>None\<close> for an element that is
  falsy or lacks them.
\<close>

type_synonym shown_calls = "jsval \<Rightarrow> (string \<times> string) option list option"

text \<open>The body of \<^verbatim>\<open>callsArray.forEach\<close>, lines 72 to 77.\<close>

definition count_shown_call :: "(string \<times> string) option \<Rightarrow> quick_scan \<Rightarrow> quick_scan" where
  "count_shown_call call q =
     (if call = Some (''utility'', ''asDerivative'')
      then q\<lparr>hasAsDerivative := True, found := found q + 1\<rparr>
      else q)"

text \<open>
  The body of \<^verbatim>\<open>extrinsics.forEach\<close>, lines 58 to 81. \<^verbatim>\<open>ex.method.args[0]\<close> throws
  when \<^verbatim>\<open>ex.method.args\<close> is missing.
\<close>

definition quick_scan_extrinsic :: "shown_calls \<Rightarrow> extrinsic \<Rightarrow> quick_scan \<Rightarrow> js_error + quick_scan" where
  "quick_scan_extrinsic shown ex q =
     (if call_section (ex_method ex) = ''utility''
      then (let q1 = q\<lparr>utilityCount := utilityCount q + 1\<rparr>;
                q2 = (if call_method (ex_method ex) = ''asDerivative''
                      then q1\<lparr>hasAsDerivative := True, found := found q1 + 1\<rparr> else q1)
            in if call_method (ex_method ex) \<in> set [''batch'', ''batchAll'']
               then (case ex_method_args ex of
                       None \<Rightarrow> Inl TypeError
                     | Some args \<Rightarrow>
                         (case shown (js_index args 0) of
                            None \<Rightarrow> Inr q2
                          | Some callsArray \<Rightarrow> Inr (fold count_shown_call callsArray q2)))
               else Inr q2)
      else Inr q)"

section \<open>Call trees and renderable calls\<close>

text \<open>
  The calls of a call tree in the order of the walk, each as the matcher reads it: the call
  itself and, for a batch or batchAll of the utility section, the calls of the sequence
  that is its first argument, read through their property \<^verbatim>\<open>method\<close>.
\<close>

definition is_asDerivative :: "callMethod \<Rightarrow> bool" where
  "is_asDerivative m \<longleftrightarrow> call_section m = ''utility'' \<and> call_method m = ''asDerivative''"

definition is_batch :: "callMethod \<Rightarrow> bool" where
  "is_batch m \<longleftrightarrow> call_section m = ''utility'' \<and> call_method m \<in> set [''batch'', ''batchAll'']"

function call_tree :: "callMethod \<Rightarrow> jsval list \<Rightarrow> (callMethod \<times> jsval list) list"
  and call_forest :: "jsval list \<Rightarrow> (callMethod \<times> jsval list) list"
where
  "call_tree m as =
     (m, as) #
     (if is_batch m
      then (case callsArr_of (js_index as 0) of Inl e \<Rightarrow> [] | Inr callsArr \<Rightarrow> call_forest callsArr)
      else [])"
| "call_forest [] = []"
| "call_forest (nested # rest) =
     (case nested of Codec_Call m as \<Rightarrow> call_tree m as | _ \<Rightarrow> []) @ call_forest rest"
  by pat_completeness auto
termination
  by (relation "measure (\<lambda>x. case x of
          Inl (m, args) \<Rightarrow> 2 * size_list size args + 1
        | Inr xs \<Rightarrow> 2 * size_list size xs)")
     (auto dest: size_callsArr_of_index)



section \<open>A registry and a hash for evaluated examples\<close>

text \<open>
  Two registries and a checksum in place of the hash, used only where a statement is
  evaluated on concrete input. Both take a text of 32 characters for an address.
  \<open>strict_api\<close> accepts exactly 32 bytes. \<open>truncating_api\<close> treats a byte array as the
  client library's AccountId32 does: fewer than 32 bytes are refused, and of more than 32
  bytes the first 32 are kept.
\<close>

definition checksum_hash :: hash_fn where
  "checksum_hash raw bitLength = replicate (bitLength div 8) (sum_list raw)"

definition strict_api :: api where
  "strict_api =
     \<lparr>createType = (\<lambda>v. case v of
          From_String s \<Rightarrow>
            if length s = 32 then Inr (stringToU8a s) else Inl (RegistryError ''Invalid AccountId'')
        | From_U8a bs \<Rightarrow>
            if length bs = 32 then Inr bs else Inl (RegistryError ''Invalid AccountId'')),
      toString = map (\<lambda>b. char_of (unat b))\<rparr>"

definition truncating_api :: api where
  "truncating_api =
     \<lparr>createType = (\<lambda>v. case v of
          From_String s \<Rightarrow>
            if length s = 32 then Inr (stringToU8a s) else Inl (RegistryError ''Invalid AccountId'')
        | From_U8a bs \<Rightarrow>
            if length bs < 32 then Inl (RegistryError ''Invalid AccountId'') else Inr (take 32 bs)),
      toString = map (\<lambda>b. char_of (unat b))\<rparr>"

definition alice :: string where
  "alice = ''5GrwvaEF5zXb26Fz9rcQpDWS57CtERHp''"

text \<open>
  The signer that the client library gives an extrinsic without signature is the address
  of 32 zero bytes; \<open>unsigned_signer\<close> stands for its text, cut to the 32 characters that
  the example registries take for an address, as \<open>alice\<close> is.
\<close>

definition unsigned_signer :: string where
  "unsigned_signer = ''5C4hrfjw9DjXZTzV3MwzrrAr9P1MJhSr''"

text \<open>Calls, extrinsics and a chain of three blocks for the evaluated examples.\<close>

definition remark_call :: jsval where
  "remark_call = Codec_Call \<lparr>call_section = ''system'', call_method = ''remark''\<rparr> [Codec_Other ''0x00'']"

definition plain_batch :: jsval where
  "plain_batch = Codec_Call \<lparr>call_section = ''utility'', call_method = ''batchAll''\<rparr>
     [Codec_Vec [remark_call, remark_call]]"

text \<open>
  The extrinsic \<^verbatim>\<open>utility.batch([system.remark, utility.batchAll([system.remark,
  utility.asDerivative(5, system.remark), system.remark])])\<close> signed by \<open>alice\<close>, with the
  calls of its sequences as the client library decodes them.
\<close>

definition nested_batch_args :: "jsval list" where
  "nested_batch_args =
     [Codec_Vec
        [library_call ''system'' ''remark'' [Codec_Other ''0x00''],
         library_call ''utility'' ''batchAll''
           [Codec_Vec
              [library_call ''system'' ''remark'' [Codec_Other ''0x00''],
               library_call ''utility'' ''asDerivative''
                 [Codec_Num 5, library_call ''system'' ''remark'' [Codec_Other ''0x00'']],
               library_call ''system'' ''remark'' [Codec_Other ''0x00'']]]]]"

definition nested_batch_extrinsic :: extrinsic where
  "nested_batch_extrinsic =
     \<lparr>ex_signer = Some alice,
      ex_method = \<lparr>call_section = ''utility'', call_method = ''batch''\<rparr>,
      ex_method_args = Some nested_batch_args,
      ex_args = None\<rparr>"

text \<open>
  An extrinsic without signature whose call is \<^verbatim>\<open>utility.asDerivative(5, system.remark)\<close>.
\<close>

definition unsigned_asDerivative_extrinsic :: extrinsic where
  "unsigned_asDerivative_extrinsic =
     \<lparr>ex_signer = Some unsigned_signer,
      ex_method = \<lparr>call_section = ''utility'', call_method = ''asDerivative''\<rparr>,
      ex_method_args = Some [Codec_Num 5, library_call ''system'' ''remark'' [Codec_Other ''0x00'']],
      ex_args = None\<rparr>"


text \<open>The inherent \<^verbatim>\<open>timestamp.set\<close>, which carries no signature.\<close>

definition timestamp_extrinsic :: extrinsic where
  "timestamp_extrinsic =
     \<lparr>ex_signer = Some unsigned_signer,
      ex_method = \<lparr>call_section = ''timestamp'', call_method = ''set''\<rparr>,
      ex_method_args = Some [Codec_Num 1700000000],
      ex_args = None\<rparr>"

definition asDerivative_extrinsic :: extrinsic where
  "asDerivative_extrinsic =
     \<lparr>ex_signer = Some alice,
      ex_method = \<lparr>call_section = ''utility'', call_method = ''asDerivative''\<rparr>,
      ex_method_args = Some [Codec_Num 5, remark_call],
      ex_args = None\<rparr>"

definition demo_block :: "int \<Rightarrow> extrinsic list" where
  "demo_block n = (if n = 101 then [timestamp_extrinsic, asDerivative_extrinsic] else [timestamp_extrinsic])"

definition demo_chain :: "int \<Rightarrow> js_error + extrinsic list" where
  "demo_chain n = (if 100 \<le> n \<and> n \<le> 102 then Inr (demo_block n) else Inl (RpcError ''unknown block''))"

section \<open>Notions used in the statements\<close>

text \<open>
  Every step of the scan adds to the state: it increments counters, inserts into the set of
  accounts, appends details. \<open>combine st e\<close> adds the effect \<open>e\<close> (the state reached from
  the initial state) to \<open>st\<close>, and a step \<open>translates\<close> when running it from any state
  adds the effect it has from the initial state and completes the same way.
\<close>

definition combine :: "state \<Rightarrow> state \<Rightarrow> state" where
  "combine st e =
     \<lparr>counters_total = counters_total st + counters_total e,
      counters_unique = counters_unique st \<union> counters_unique e,
      details = details st @ details e,
      debug_totalExtrinsics = debug_totalExtrinsics st + debug_totalExtrinsics e,
      debug_utilityExtrinsics = debug_utilityExtrinsics st + debug_utilityExtrinsics e,
      debug_utilityMethods = (\<lambda>k. case debug_utilityMethods e k of
          None \<Rightarrow> debug_utilityMethods st k
        | Some b \<Rightarrow> Some ((case debug_utilityMethods st k of None \<Rightarrow> 0 | Some a \<Rightarrow> a) + b))\<rparr>"

definition translates :: "(state \<Rightarrow> state \<times> completion) \<Rightarrow> bool" where
  "translates f \<longleftrightarrow> (\<forall>st. f st = (combine st (fst (f initial_state)), snd (f initial_state)))"

text \<open>The details written between two states of a run.\<close>

definition new_details :: "state \<Rightarrow> state \<Rightarrow> detail list" where
  "new_details st st' = drop (length (details st)) (details st')"

text \<open>
  A detail is reproducible when the deriver, applied to its signer and its index, succeeds
  and gives the account whose text the detail carries.
\<close>

definition reproducible :: "hash_fn \<Rightarrow> api \<Rightarrow> detail \<Rightarrow> bool" where
  "reproducible blake2AsU8a api r =
     (case deriveAccountCorrect blake2AsU8a api (From_String (d_signer r)) (d_derivativeIndex r) of
        Inr acc \<Rightarrow> d_derivedAccount r = toString api acc
      | Inl e \<Rightarrow> False)"




text \<open>The details a block gives: what its extrinsics write when processed from the initial state.\<close>

definition block_details :: "hash_fn \<Rightarrow> api \<Rightarrow> int \<Rightarrow> extrinsic list \<Rightarrow> detail list" where
  "block_details blake2AsU8a api blockNumber extrinsics =
     details (fst (forEach_extrinsic blake2AsU8a api blockNumber 0 extrinsics initial_state))"

section \<open>Effects do not depend on the state they start from\<close>

lemma combine_initial_left [simp]: "combine initial_state e = e"
  by (simp add: combine_def initial_state_def fun_eq_iff split: option.splits)

lemma combine_initial_right [simp]: "combine st initial_state = st"
  by (simp add: combine_def initial_state_def)

lemma combine_assoc: "combine (combine st a) b = combine st (combine a b)"
  by (simp add: combine_def fun_eq_iff Un_assoc split: option.splits)

lemma translatesI:
  assumes "\<And>st. f st = (combine st e, c)"
  shows "translates f"
proof -
  have all: "\<forall>st. f st = (combine st e, c)" using assms by blast
  have init: "f initial_state = (e, c)"
    using all combine_initial_left by metis
  have "fst (f initial_state) = e" by (subst init) (rule fst_conv)
  moreover have "snd (f initial_state) = c" by (subst init) (rule snd_conv)
  ultimately show ?thesis unfolding translates_def using all by metis
qed

lemma translatesD: "translates f \<Longrightarrow> f st = (combine st (fst (f initial_state)), snd (f initial_state))"
  unfolding translates_def by blast

lemma translates_return: "translates (\<lambda>st. (st, Returned))"
  by (rule translatesI [of _ initial_state Returned]) simp

lemma translates_bind:
  assumes f: "translates f"
    and g: "snd (f initial_state) = Returned \<Longrightarrow> translates g"
  shows "translates (\<lambda>st. case f st of (st', Returned) \<Rightarrow> g st' | (st', Thrown e) \<Rightarrow> (st', Thrown e))"
proof (cases "snd (f initial_state)")
  case Returned
  then have tg: "translates g" by (rule g)
  show ?thesis
  proof (rule translatesI [of _ "combine (fst (f initial_state)) (fst (g initial_state))" "snd (g initial_state)"])
    fix st
    have "f st = (combine st (fst (f initial_state)), Returned)"
      using translatesD [OF f, of st] Returned by simp
    moreover have "g (combine st (fst (f initial_state)))
        = (combine (combine st (fst (f initial_state))) (fst (g initial_state)), snd (g initial_state))"
      by (rule translatesD [OF tg])
    ultimately show "(case f st of (st', Returned) \<Rightarrow> g st' | (st', Thrown e) \<Rightarrow> (st', Thrown e))
        = (combine st (combine (fst (f initial_state)) (fst (g initial_state))), snd (g initial_state))"
      by (simp add: combine_assoc)
  qed
next
  case (Thrown e)
  show ?thesis
  proof (rule translatesI [of _ "fst (f initial_state)" "Thrown e"])
    fix st
    have "f st = (combine st (fst (f initial_state)), Thrown e)"
      using translatesD [OF f, of st] Thrown by simp
    then show "(case f st of (st', Returned) \<Rightarrow> g st' | (st', Thrown e) \<Rightarrow> (st', Thrown e))
        = (combine st (fst (f initial_state)), Thrown e)"
      by simp
  qed
qed

lemma translates_after:
  assumes u: "\<And>st. u st = combine st (u initial_state)" and f: "translates f"
  shows "translates (\<lambda>st. f (u st))"
proof (rule translatesI [of _ "combine (u initial_state) (fst (f initial_state))" "snd (f initial_state)"])
  fix st
  show "f (u st) = (combine st (combine (u initial_state) (fst (f initial_state))), snd (f initial_state))"
    using translatesD [OF f, of "u st"] u [of st] by (simp add: combine_assoc)
qed

declare checkAsDerivative.simps [simp del]

lemma tally_combine: "tally_utilityMethod k st = combine st (tally_utilityMethod k initial_state)"
  by (simp add: tally_utilityMethod_def combine_def initial_state_def fun_eq_iff split: option.splits)

lemma translates_match: "translates (match_asDerivative h callArgs api bn idx s)"
proof (cases "toNumber (js_index callArgs 0)")
  case (Inl e)
  show ?thesis
    by (rule translatesI [of _ initial_state "Thrown e"]) (simp add: match_asDerivative_def Inl)
next
  case i: (Inr i)
  show ?thesis
  proof (cases "deriveAccountCorrect h api (From_String s) i")
    case (Inl e)
    show ?thesis
      by (rule translatesI [of _ initial_state "Thrown e"]) (simp add: match_asDerivative_def i Inl)
  next
    case acc: (Inr acc)
    define counted where
      "counted = initial_state\<lparr>counters_unique := {toString api acc}, counters_total := 1\<rparr>"
    show ?thesis
    proof (cases "build_detail bn idx s i (toString api acc) (js_index callArgs 1)")
      case (Inl e)
      show ?thesis
        by (rule translatesI [of _ counted "Thrown e"])
          (simp add: match_asDerivative_def i acc Inl counted_def combine_def initial_state_def Let_def del: One_nat_def)
    next
      case (Inr d)
      show ?thesis
        by (rule translatesI [of _ "counted\<lparr>details := [d]\<rparr>" Returned])
          (simp add: match_asDerivative_def i acc Inr counted_def combine_def initial_state_def Let_def del: One_nat_def)
    qed
  qed
qed

lemma translates_check:
  "translates (checkAsDerivative h cm args api bn idx s depth)"
  and translates_forEach: "translates (forEach_nested h xs api bn idx s depth)"
proof (induction h cm args api bn idx s depth "st :: state" and h xs api bn idx s depth "st :: state"
       rule: checkAsDerivative_forEach_nested.induct)
  case (1 h cm args api bn idx s depth st)
  let ?u = "\<lambda>st. if depth = 0 \<and> call_section cm = ''utility''
                  then tally_utilityMethod (call_method cm) st else st"
  have u: "?u st = combine st (?u initial_state)" for st
    using tally_combine [of "call_method cm" st] by simp
  have body: "translates (\<lambda>st0.
      if call_section cm = ''utility'' \<and> call_method cm = ''asDerivative''
      then match_asDerivative h args api bn idx s st0
      else if call_section cm = ''utility'' \<and> call_method cm \<in> set [''batch'', ''batchAll'']
      then (case callsArr_of (js_index args 0) of
              Inl e \<Rightarrow> (st0, Thrown e)
            | Inr callsArr \<Rightarrow> forEach_nested h callsArr api bn idx s (depth + 1) st0)
      else (st0, Returned))"
  proof (cases "call_section cm = ''utility'' \<and> call_method cm = ''asDerivative''")
    case True
    then show ?thesis by (simp add: translates_match)
  next
    case False
    then have notD: "(call_section cm = ''utility'' \<and> call_method cm = ''asDerivative'') = False"
      by simp
    show ?thesis
    proof (cases "call_section cm = ''utility'' \<and> call_method cm \<in> set [''batch'', ''batchAll'']")
      case False
      then have "(call_section cm = ''utility'' \<and> call_method cm \<in> set [''batch'', ''batchAll'']) = False"
        by simp
      then show ?thesis unfolding notD by (simp only: if_False translates_return)
    next
      case batch: True
      show ?thesis
      proof (cases "callsArr_of (js_index args 0)")
        case (Inl e)
        have "translates (\<lambda>st0. (st0, Thrown e))"
          by (rule translatesI [of _ initial_state "Thrown e"]) simp
        then show ?thesis unfolding notD using batch Inl by simp
      next
        case (Inr callsArr)
        have "translates (forEach_nested h callsArr api bn idx s (depth + 1))"
          using "1.IH" [OF refl _ batch Inr] notD by simp
        then show ?thesis unfolding notD using batch Inr by simp
      qed
    qed
  qed
  have "translates (\<lambda>st. (\<lambda>st0.
      if call_section cm = ''utility'' \<and> call_method cm = ''asDerivative''
      then match_asDerivative h args api bn idx s st0
      else if call_section cm = ''utility'' \<and> call_method cm \<in> set [''batch'', ''batchAll'']
      then (case callsArr_of (js_index args 0) of
              Inl e \<Rightarrow> (st0, Thrown e)
            | Inr callsArr \<Rightarrow> forEach_nested h callsArr api bn idx s (depth + 1) st0)
      else (st0, Returned)) (?u st))"
    by (rule translates_after [OF u body])
  moreover have "checkAsDerivative h cm args api bn idx s depth = (\<lambda>st. (\<lambda>st0.
      if call_section cm = ''utility'' \<and> call_method cm = ''asDerivative''
      then match_asDerivative h args api bn idx s st0
      else if call_section cm = ''utility'' \<and> call_method cm \<in> set [''batch'', ''batchAll'']
      then (case callsArr_of (js_index args 0) of
              Inl e \<Rightarrow> (st0, Thrown e)
            | Inr callsArr \<Rightarrow> forEach_nested h callsArr api bn idx s (depth + 1) st0)
      else (st0, Returned)) (?u st))"
    by (rule ext) (simp add: checkAsDerivative.simps Let_def)
  ultimately show ?case by simp
next
  case (2 h api bn idx s depth st)
  show ?case using translates_return by simp
next
  case (3 h nested rest api bn idx s depth st)
  show ?case
  proof (cases nested)
    case (Codec_Call m as)
    have f: "translates (checkAsDerivative h m as api bn idx s depth)"
      using "3.IH"(7) [OF Codec_Call] .
    have g: "translates (forEach_nested h rest api bn idx s depth)"
      if "snd (checkAsDerivative h m as api bn idx s depth initial_state) = Returned"
    proof -
      have "snd (checkAsDerivative h m as api bn idx s depth st) = Returned"
        using translatesD [OF f, of st] that by simp
      then show ?thesis
        using "3.IH"(8) [OF Codec_Call, of "fst (checkAsDerivative h m as api bn idx s depth st)" Returned]
        by (simp add: prod_eq_iff)
    qed
    have "forEach_nested h (nested # rest) api bn idx s depth =
      (\<lambda>st. case checkAsDerivative h m as api bn idx s depth st of
               (st', Returned) \<Rightarrow> forEach_nested h rest api bn idx s depth st'
             | (st', Thrown e) \<Rightarrow> (st', Thrown e))"
      by (rule ext) (simp add: Codec_Call)
    then show ?thesis using translates_bind [OF f g] by simp
  next
    case Undefined
    have "forEach_nested h (nested # rest) api bn idx s depth = forEach_nested h rest api bn idx s depth"
      by (rule ext) (simp add: Undefined)
    then show ?thesis using "3.IH"(1) [OF Undefined] by simp
  next
    case Null
    have "forEach_nested h (nested # rest) api bn idx s depth = forEach_nested h rest api bn idx s depth"
      by (rule ext) (simp add: Null)
    then show ?thesis using "3.IH"(2) [OF Null] by simp
  next
    case (Codec_Num x)
    have "forEach_nested h (nested # rest) api bn idx s depth = forEach_nested h rest api bn idx s depth"
      by (rule ext) (simp add: Codec_Num)
    then show ?thesis using "3.IH"(3) [OF Codec_Num] by simp
  next
    case (Codec_Other x)
    have "forEach_nested h (nested # rest) api bn idx s depth = forEach_nested h rest api bn idx s depth"
      by (rule ext) (simp add: Codec_Other)
    then show ?thesis using "3.IH"(4) [OF Codec_Other] by simp
  next
    case (Array x)
    have "forEach_nested h (nested # rest) api bn idx s depth = forEach_nested h rest api bn idx s depth"
      by (rule ext) (simp add: Array)
    then show ?thesis using "3.IH"(5) [OF Array] by simp
  next
    case (Codec_Vec x)
    have "forEach_nested h (nested # rest) api bn idx s depth = forEach_nested h rest api bn idx s depth"
      by (rule ext) (simp add: Codec_Vec)
    then show ?thesis using "3.IH"(6) [OF Codec_Vec] by simp
  qed
qed

lemma forEach_nested_skip:
  "(\<And>m as. nested \<noteq> Codec_Call m as) \<Longrightarrow>
   forEach_nested h (nested # rest) api bn idx s depth st = forEach_nested h rest api bn idx s depth st"
  by (cases nested) auto

lemma call_forest_skip:
  "(\<And>m as. nested \<noteq> Codec_Call m as) \<Longrightarrow> call_forest (nested # rest) = call_forest rest"
  by (cases nested) auto

lemma call_tree_unfold:
  "call_tree m as = (m, as) #
     (if is_batch m
      then (case callsArr_of (js_index as 0) of Inl e \<Rightarrow> [] | Inr callsArr \<Rightarrow> call_forest callsArr)
      else [])"
  by (rule call_tree.simps)

declare call_tree.simps [simp del]

lemma call_tree_self: "(m, as) \<in> set (call_tree m as)"
  by (subst call_tree_unfold) (rule list.set_intros(1))

lemma call_tree_batch:
  "is_batch m \<Longrightarrow> callsArr_of (js_index as 0) = Inr callsArr \<Longrightarrow>
   call_tree m as = (m, as) # call_forest callsArr"
  by (simp add: call_tree_unfold)

lemma call_tree_leaf: "\<not> is_batch m \<Longrightarrow> call_tree m as = [(m, as)]"
  by (simp add: call_tree_unfold)

lemma call_forest_Call: "call_forest (Codec_Call m as # rest) = call_tree m as @ call_forest rest"
  by simp

lemma walk_induct_aux:
  fixes \<Phi> :: "state \<times> completion \<Rightarrow> bool"
  assumes ret: "\<Phi> (initial_state, Returned)"
    and bind: "\<And>a b c. \<Phi> (a, Returned) \<Longrightarrow> \<Phi> (b, c) \<Longrightarrow> \<Phi> (combine a b, c)"
  shows "(depth = 0 \<and> call_section cm = ''utility'' \<longrightarrow>
            \<Phi> (tally_utilityMethod (call_method cm) initial_state, Returned)) \<longrightarrow>
         (\<forall>(m, as) \<in> set (call_tree cm args).
            (is_asDerivative m \<longrightarrow> \<Phi> (match_asDerivative h as api bn idx s initial_state)) \<and>
            (is_batch m \<longrightarrow> (\<forall>e. callsArr_of (js_index as 0) = Inl e \<longrightarrow> \<Phi> (initial_state, Thrown e)))) \<longrightarrow>
         \<Phi> (checkAsDerivative h cm args api bn idx s depth initial_state)"
    and "0 < depth \<longrightarrow>
         (\<forall>(m, as) \<in> set (call_forest xs).
            (is_asDerivative m \<longrightarrow> \<Phi> (match_asDerivative h as api bn idx s initial_state)) \<and>
            (is_batch m \<longrightarrow> (\<forall>e. callsArr_of (js_index as 0) = Inl e \<longrightarrow> \<Phi> (initial_state, Thrown e)))) \<longrightarrow>
         \<Phi> (forEach_nested h xs api bn idx s depth initial_state)"
proof (induction h cm args api bn idx s depth "st :: state" and h xs api bn idx s depth "st :: state"
       rule: checkAsDerivative_forEach_nested.induct)
  case (1 h cm args api bn idx s depth st)
  let ?A = "\<lambda>(m, as).
      (is_asDerivative m \<longrightarrow> \<Phi> (match_asDerivative h as api bn idx s initial_state)) \<and>
      (is_batch m \<longrightarrow> (\<forall>e. callsArr_of (js_index as 0) = Inl e \<longrightarrow> \<Phi> (initial_state, Thrown e)))"
  show ?case
  proof (intro impI)
    assume T: "depth = 0 \<and> call_section cm = ''utility'' \<longrightarrow>
        \<Phi> (tally_utilityMethod (call_method cm) initial_state, Returned)"
    assume A: "\<forall>x \<in> set (call_tree cm args). ?A x"
    have self: "?A (cm, args)" using A call_tree_self [of cm args] by blast
    define st0 where "st0 = (if depth = 0 \<and> call_section cm = ''utility''
        then tally_utilityMethod (call_method cm) initial_state else initial_state)"
    have st0: "\<Phi> (st0, Returned)" using T ret by (simp add: st0_def)
    have "\<exists>E C. \<Phi> (E, C) \<and> checkAsDerivative h cm args api bn idx s depth initial_state = (combine st0 E, C)"
    proof (cases "is_asDerivative cm")
      case True
      let ?r = "match_asDerivative h args api bn idx s initial_state"
      have "\<Phi> (fst ?r, snd ?r)" using self True by simp
      moreover have "checkAsDerivative h cm args api bn idx s depth initial_state
          = (combine st0 (fst ?r), snd ?r)"
        using True translatesD [OF translates_match, of h args api bn idx s st0]
        by (simp add: checkAsDerivative.simps is_asDerivative_def st0_def Let_def)
      ultimately show ?thesis by blast
    next
      case notD: False
      show ?thesis
      proof (cases "is_batch cm")
        case False
        have "checkAsDerivative h cm args api bn idx s depth initial_state = (combine st0 initial_state, Returned)"
          using notD False
          by (auto simp: checkAsDerivative.simps is_asDerivative_def is_batch_def st0_def Let_def)
        with ret show ?thesis by blast
      next
        case batch: True
        show ?thesis
        proof (cases "callsArr_of (js_index args 0)")
          case (Inl e)
          have "\<Phi> (initial_state, Thrown e)" using self batch Inl by simp
          moreover have "checkAsDerivative h cm args api bn idx s depth initial_state
              = (combine st0 initial_state, Thrown e)"
            using notD batch Inl
            by (auto simp: checkAsDerivative.simps is_asDerivative_def is_batch_def st0_def Let_def)
          ultimately show ?thesis by blast
        next
          case (Inr callsArr)
          let ?r = "forEach_nested h callsArr api bn idx s (depth + 1) initial_state"
          have sub: "set (call_forest callsArr) \<subseteq> set (call_tree cm args)"
            using call_tree_batch [OF batch Inr] by auto
          have nd: "\<not> (call_section cm = ''utility'' \<and> call_method cm = ''asDerivative'')"
            using notD by (simp add: is_asDerivative_def)
          have bt: "call_section cm = ''utility'' \<and> call_method cm \<in> set [''batch'', ''batchAll'']"
            using batch by (simp add: is_batch_def)
          have "\<Phi> ?r"
            using "1.IH" [OF refl nd bt Inr] A sub by auto
          then have "\<Phi> (fst ?r, snd ?r)" by simp
          moreover have "checkAsDerivative h cm args api bn idx s depth initial_state
              = (combine st0 (fst ?r), snd ?r)"
            using nd bt Inr translatesD [OF translates_forEach, of h callsArr api bn idx s "depth + 1" st0]
            by (simp add: checkAsDerivative.simps st0_def Let_def)
          ultimately show ?thesis by blast
        qed
      qed
    qed
    then obtain E C where EC: "\<Phi> (E, C)"
      and eq: "checkAsDerivative h cm args api bn idx s depth initial_state = (combine st0 E, C)"
      by blast
    show "\<Phi> (checkAsDerivative h cm args api bn idx s depth initial_state)"
      unfolding eq by (rule bind [OF st0 EC])
  qed
next
  case (2 h api bn idx s depth st)
  show ?case using ret by simp
next
  case (3 h nested rest api bn idx s depth st)
  let ?A = "\<lambda>(m, as).
      (is_asDerivative m \<longrightarrow> \<Phi> (match_asDerivative h as api bn idx s initial_state)) \<and>
      (is_batch m \<longrightarrow> (\<forall>e. callsArr_of (js_index as 0) = Inl e \<longrightarrow> \<Phi> (initial_state, Thrown e)))"
  show ?case
  proof (intro impI)
    assume depth: "0 < depth"
    assume A: "\<forall>x \<in> set (call_forest (nested # rest)). ?A x"
    show "\<Phi> (forEach_nested h (nested # rest) api bn idx s depth initial_state)"
    proof (cases "\<exists>m as. nested = Codec_Call m as")
      case False
      then have skip: "\<And>m as. nested \<noteq> Codec_Call m as" by blast
      have "\<Phi> (forEach_nested h rest api bn idx s depth initial_state)"
        using "3.IH"(1-6) depth A skip call_forest_skip [OF skip, of rest]
        by (cases nested) auto
      then show ?thesis by (simp only: forEach_nested_skip [OF skip])
    next
      case True
      then obtain m as where call: "nested = Codec_Call m as" by blast
      let ?f = "checkAsDerivative h m as api bn idx s depth"
      let ?g = "forEach_nested h rest api bn idx s depth"
      have A1: "\<forall>x \<in> set (call_tree m as). ?A x" and A2: "\<forall>x \<in> set (call_forest rest). ?A x"
        using A unfolding call call_forest_Call by auto
      have f: "\<Phi> (?f initial_state)"
        using "3.IH"(7) [OF call] depth A1 by simp
      show ?thesis
      proof (cases "snd (?f initial_state)")
        case (Thrown e)
        then have "forEach_nested h (nested # rest) api bn idx s depth initial_state = ?f initial_state"
          by (cases "?f initial_state") (simp add: call)
        with f show ?thesis by simp
      next
        case Returned
        have "snd (?f st) = Returned"
          using translatesD [OF translates_check, of h m as api bn idx s depth st] Returned by simp
        then have g: "\<Phi> (?g initial_state)"
          using "3.IH"(8) [OF call, of "fst (?f st)" Returned] depth A2
          by (simp add: prod_eq_iff)
        have "forEach_nested h (nested # rest) api bn idx s depth initial_state
            = ?g (fst (?f initial_state))"
          using Returned by (cases "?f initial_state") (simp add: call)
        also have "\<dots> = (combine (fst (?f initial_state)) (fst (?g initial_state)), snd (?g initial_state))"
          by (rule translatesD [OF translates_forEach])
        finally have eq: "forEach_nested h (nested # rest) api bn idx s depth initial_state
            = (combine (fst (?f initial_state)) (fst (?g initial_state)), snd (?g initial_state))" .
        have "?f initial_state = (fst (?f initial_state), Returned)"
          using Returned by (simp add: prod_eq_iff)
        then have "\<Phi> (fst (?f initial_state), Returned)" using f by metis
        moreover have "\<Phi> (fst (?g initial_state), snd (?g initial_state))" using g by simp
        ultimately show ?thesis unfolding eq by (rule bind)
      qed
    qed
  qed
qed

section \<open>Properties of the account deriver\<close>

lemma mask8: "(255 :: 32 word) = mask 8"
  by (simp add: mask_eq_exp_minus_1)

lemma js_bitand_255: "js_bitand i 255 = i mod 256"
proof -
  have "(word_of_int i :: 32 word) AND 255 = take_bit 8 (word_of_int i)"
    by (simp add: mask8 take_bit_eq_mask)
  also have "\<dots> = word_of_int (take_bit 8 i)"
    by (simp add: take_bit_of_int)
  finally have "js_bitand i 255 = sint (word_of_int (take_bit 8 i) :: 32 word)"
    by (simp add: js_bitand_def)
  also have "\<dots> = take_bit 8 i"
    by (simp add: sint_sbintrunc' signed_take_bit_take_bit)
  finally show ?thesis by (simp add: take_bit_eq_mod)
qed

lemma int_and_255: "(i :: int) AND 255 = i mod 256"
proof -
  have "i AND 255 = i AND mask 8" by (simp add: mask_eq_exp_minus_1)
  also have "\<dots> = take_bit 8 i" by (rule take_bit_eq_mask [symmetric])
  also have "\<dots> = i mod 256" by (simp add: take_bit_eq_mod)
  finally show ?thesis .
qed

lemma to_uint8_eq_iff: "to_uint8 i = to_uint8 j \<longleftrightarrow> i mod 256 = j mod 256"
  by (simp add: to_uint8_def word_of_int_eq_iff take_bit_eq_mod)

lemma index_byte: "to_uint8 (js_bitand i 255) = to_uint8 (i mod 256)"
  by (simp add: js_bitand_255)

lemma deriveAccountCorrect_unfold:
  "deriveAccountCorrect h api signer i =
     (case createType api signer of
        Inl e \<Rightarrow> Inl e
      | Inr P \<Rightarrow> createType api (From_U8a (h (DERIVATION_PREFIX @ P @ [to_uint8 (i mod 256)]) 256)))"
  by (simp add: deriveAccountCorrect_def u8aConcat_def Let_def js_bitand_255 split: sum.split)

lemma derived_of_index_eq:
  "derived_of_index h api account i = deriveAccountCorrect h api (From_String account) i"
  by (simp add: derived_of_index_def deriveAccountCorrect_def DERIVATION_PREFIX_def Let_def
      split: sum.split)

lemma length_DERIVATION_PREFIX: "length DERIVATION_PREFIX = 16"
  by (simp add: DERIVATION_PREFIX_def stringToU8a_def)

text \<open>
  Claim C1. For a parent account that the registry decodes to 32 bytes \<open>P\<close> and every
  integer index \<open>i\<close>, the deriver returns the 256-bit digest of the 49-byte buffer made of
  the text \<^verbatim>\<open>modlpy/utilisuba\<close>, the bytes of \<open>P\<close> and the single byte \<open>i & 0xFF\<close>, wrapped
  as an AccountId32; the loop body of \<^verbatim>\<open>checkAccountDerivatives\<close> computes the same
  value. The registry is assumed to wrap a 32-byte array unchanged and the hash to give 32
  bytes, as the client library and the crypto library do.
\<close>

theorem deriveAccountCorrect_digest:
  assumes parent: "createType api signer = Inr P"
    and len: "length P = 32"
    and wrap: "\<forall>bs. length bs = 32 \<longrightarrow> createType api (From_U8a bs) = Inr bs"
    and digest: "\<forall>raw. length (blake2AsU8a raw 256) = 32"
  shows "deriveAccountCorrect blake2AsU8a api signer i
           = Inr (blake2AsU8a (stringToU8a ''modlpy/utilisuba'' @ P @ [word_of_int (i AND 255)]) 256)
       \<and> (\<forall>account. signer = From_String account \<longrightarrow>
            derived_of_index blake2AsU8a api account i
              = Inr (blake2AsU8a (stringToU8a ''modlpy/utilisuba'' @ P @ [word_of_int (i AND 255)]) 256))
       \<and> length (stringToU8a ''modlpy/utilisuba'' @ P @ [word_of_int (i AND 255) :: byte]) = 49
       \<and> length (blake2AsU8a (stringToU8a ''modlpy/utilisuba'' @ P @ [word_of_int (i AND 255)]) 256) = 32"
proof -
  let ?raw = "stringToU8a ''modlpy/utilisuba'' @ P @ [word_of_int (i AND 255) :: byte]"
  have raw: "DERIVATION_PREFIX @ P @ [to_uint8 (i mod 256)] = ?raw"
    by (simp add: DERIVATION_PREFIX_def to_uint8_def int_and_255)
  have "deriveAccountCorrect blake2AsU8a api signer i
      = createType api (From_U8a (blake2AsU8a ?raw 256))"
    by (simp add: deriveAccountCorrect_unfold parent raw)
  also have "\<dots> = Inr (blake2AsU8a ?raw 256)"
    using wrap digest by simp
  finally have d: "deriveAccountCorrect blake2AsU8a api signer i
      = Inr (blake2AsU8a ?raw 256)" .
  have "length ?raw = 49" using len by (simp add: stringToU8a_def)
  with d digest show ?thesis by (auto simp: derived_of_index_eq)
qed

text \<open>
  The statement at index 261, whose low byte is 5, with the strict registry and the checksum
  in place of the hash.
\<close>

theorem deriveAccountCorrect_digest_witness:
  "createType strict_api (From_String alice) = Inr (stringToU8a alice)
   \<and> length (stringToU8a alice) = 32
   \<and> deriveAccountCorrect checksum_hash strict_api (From_String alice) 261
       = Inr (checksum_hash (stringToU8a ''modlpy/utilisuba'' @ stringToU8a alice @ [5]) 256)
   \<and> derived_of_index checksum_hash strict_api alice 261
       = Inr (checksum_hash (stringToU8a ''modlpy/utilisuba'' @ stringToU8a alice @ [5]) 256)
   \<and> deriveAccountCorrect checksum_hash strict_api (From_String alice) 261 = Inr (replicate 32 34)"
proof -
  have parent: "createType strict_api (From_String alice) = Inr (stringToU8a alice)"
    by (simp add: strict_api_def alice_def)
  have len: "length (stringToU8a alice) = 32"
    by (simp add: stringToU8a_def alice_def)
  have wrap: "\<forall>bs. length bs = 32 \<longrightarrow> createType strict_api (From_U8a bs) = Inr bs"
    by (simp add: strict_api_def)
  have digest: "\<forall>raw. length (checksum_hash raw 256) = 32"
    by (simp add: checksum_hash_def)
  have b: "(word_of_int (261 AND 255) :: byte) = 5"
    by (simp add: int_and_255)
  have v: "checksum_hash (stringToU8a ''modlpy/utilisuba'' @ stringToU8a alice @ [5]) 256 = replicate 32 34"
    by (simp add: checksum_hash_def stringToU8a_def alice_def)
  show ?thesis
    using deriveAccountCorrect_digest [where blake2AsU8a = checksum_hash and api = strict_api
        and signer = "From_String alice" and P = "stringToU8a alice" and i = 261] parent len wrap digest
    by (simp only: b v) simp
qed

text \<open>
  Claim C3. Two indices that agree modulo 256 give the same derived account for every
  parent account; only the low eight bits of the index reach the buffer.
\<close>

theorem deriveAccountCorrect_low_byte:
  "(i mod 256 = j mod 256 \<longrightarrow>
      deriveAccountCorrect blake2AsU8a api P i = deriveAccountCorrect blake2AsU8a api P j)
   \<and> deriveAccountCorrect blake2AsU8a api P i = deriveAccountCorrect blake2AsU8a api P (i mod 256)"
  by (auto simp: deriveAccountCorrect_unfold split: sum.split)

text \<open>Indices 5 and 261 derive the same account.\<close>

theorem deriveAccountCorrect_low_byte_witness:
  "(5 :: int) mod 256 = 261 mod 256
   \<and> deriveAccountCorrect checksum_hash strict_api (From_String alice) 5
       = deriveAccountCorrect checksum_hash strict_api (From_String alice) 261"
  using deriveAccountCorrect_low_byte [of 5 261 checksum_hash strict_api "From_String alice"]
  by simp

text \<open>
  Claim C6, as amended. The deriver has no length check and no error of its own: it fails
  exactly when the registry rejects the parent account or the digest, with the registry's
  error, and whenever the registry accepts the parent account the result is what the
  registry makes of the digest of the bytes the registry decoded, whatever the length of
  the input. As a function of its arguments it has no other effect.
\<close>

theorem deriveAccountCorrect_fails_with_registry:
  "(deriveAccountCorrect blake2AsU8a api signer i = Inl e \<longleftrightarrow>
      createType api signer = Inl e \<or>
      (\<exists>P. createType api signer = Inr P \<and>
           createType api (From_U8a (blake2AsU8a (DERIVATION_PREFIX @ P @ [to_uint8 (i mod 256)]) 256)) = Inl e))
   \<and> (\<forall>P. createType api signer = Inr P \<longrightarrow>
         deriveAccountCorrect blake2AsU8a api signer i
           = createType api (From_U8a (blake2AsU8a (DERIVATION_PREFIX @ P @ [to_uint8 (i mod 256)]) 256)))"
  by (auto simp: deriveAccountCorrect_unfold split: sum.split)

text \<open>
  With the registry that treats byte arrays as the client library does, a 3-byte account
  fails with the registry's error and a 32-character address is derived.
\<close>

theorem deriveAccountCorrect_fails_with_registry_witness:
  "createType truncating_api (From_U8a [1, 2, 3]) = Inl (RegistryError ''Invalid AccountId'')
   \<and> deriveAccountCorrect checksum_hash truncating_api (From_U8a [1, 2, 3]) 0
       = Inl (RegistryError ''Invalid AccountId'')
   \<and> createType truncating_api (From_String alice) = Inr (stringToU8a alice)
   \<and> deriveAccountCorrect checksum_hash truncating_api (From_String alice) 0
       = createType truncating_api (From_U8a (checksum_hash
           (DERIVATION_PREFIX @ stringToU8a alice @ [to_uint8 (0 mod 256)]) 256))"
proof -
  have bad: "createType truncating_api (From_U8a [1, 2, 3]) = Inl (RegistryError ''Invalid AccountId'')"
    by (simp add: truncating_api_def)
  have good: "createType truncating_api (From_String alice) = Inr (stringToU8a alice)"
    by (simp add: truncating_api_def alice_def)
  show ?thesis
    using deriveAccountCorrect_fails_with_registry
        [of checksum_hash truncating_api "From_U8a [1, 2, 3]" 0 "RegistryError ''Invalid AccountId''"]
      deriveAccountCorrect_fails_with_registry
        [of checksum_hash truncating_api "From_String alice" 0 "RegistryError ''Invalid AccountId''"]
      bad good
    by simp
qed

text \<open>
  Claim C6 as stated fails: a parent account of 33 bytes is not refused. The registry keeps
  its first 32 bytes, and the deriver returns the account derived from those, the same as
  for the 32-byte parent account without the last byte.
\<close>

theorem long_account_is_truncated:
  "length (replicate 32 1 @ [2 :: byte]) = 33
   \<and> deriveAccountCorrect checksum_hash truncating_api (From_U8a (replicate 32 1 @ [2])) 0
       = Inr (replicate 32 182)
   \<and> deriveAccountCorrect checksum_hash truncating_api (From_U8a (replicate 32 1)) 0
       = Inr (replicate 32 182)"
  by (simp add: deriveAccountCorrect_unfold truncating_api_def checksum_hash_def
      DERIVATION_PREFIX_def stringToU8a_def to_uint8_def sum_list_replicate)

section \<open>What a walk does to the counters and the details\<close>

lemma combine_simps [simp]:
  "counters_total (combine a b) = counters_total a + counters_total b"
  "counters_unique (combine a b) = counters_unique a \<union> counters_unique b"
  "details (combine a b) = details a @ details b"
  "debug_totalExtrinsics (combine a b) = debug_totalExtrinsics a + debug_totalExtrinsics b"
  "debug_utilityExtrinsics (combine a b) = debug_utilityExtrinsics a + debug_utilityExtrinsics b"
  by (simp_all add: combine_def)

lemma initial_state_simps [simp]:
  "counters_total initial_state = 0"
  "counters_unique initial_state = {}"
  "details initial_state = []"
  "debug_totalExtrinsics initial_state = 0"
  "debug_utilityExtrinsics initial_state = 0"
  "debug_utilityMethods initial_state = Map.empty"
  by (simp_all add: initial_state_def)

lemma tally_simps [simp]:
  "counters_total (tally_utilityMethod k st) = counters_total st"
  "counters_unique (tally_utilityMethod k st) = counters_unique st"
  "details (tally_utilityMethod k st) = details st"
  "debug_totalExtrinsics (tally_utilityMethod k st) = debug_totalExtrinsics st"
  "debug_utilityExtrinsics (tally_utilityMethod k st) = debug_utilityExtrinsics st"
  by (simp_all add: tally_utilityMethod_def)

lemma build_detail_fields:
  assumes "build_detail bn idx s i a v = Inr d"
  shows "d_block d = bn \<and> d_extrinsicIndex d = idx \<and> d_signer d = s
       \<and> d_derivativeIndex d = i \<and> d_derivedAccount d = a"
  using assms by (auto simp: build_detail_def split: jsval.splits sum.splits)


text \<open>The four ways a visit of an asDerivative call ends, from the initial state.\<close>

lemma match_asDerivative_cases:
  obtains
    (bad_index) e where "toNumber (js_index as 0) = Inl e"
      "match_asDerivative h as api bn idx s initial_state = (initial_state, Thrown e)"
  | (bad_signer) i e where "toNumber (js_index as 0) = Inr i"
      "deriveAccountCorrect h api (From_String s) i = Inl e"
      "match_asDerivative h as api bn idx s initial_state = (initial_state, Thrown e)"
  | (bad_inner) i acc e where "toNumber (js_index as 0) = Inr i"
      "deriveAccountCorrect h api (From_String s) i = Inr acc"
      "build_detail bn idx s i (toString api acc) (js_index as 1) = Inl e"
      "match_asDerivative h as api bn idx s initial_state
         = (initial_state\<lparr>counters_unique := {toString api acc}, counters_total := 1\<rparr>, Thrown e)"
  | (emitted) i acc d where "toNumber (js_index as 0) = Inr i"
      "deriveAccountCorrect h api (From_String s) i = Inr acc"
      "build_detail bn idx s i (toString api acc) (js_index as 1) = Inr d"
      "match_asDerivative h as api bn idx s initial_state
         = (initial_state\<lparr>counters_unique := {toString api acc}, counters_total := 1,
              details := [d]\<rparr>, Returned)"
proof (cases "toNumber (js_index as 0)")
  case (Inl e)
  then show ?thesis by (intro bad_index [of e]) (simp_all add: match_asDerivative_def)
next
  case i: (Inr i)
  show ?thesis
  proof (cases "deriveAccountCorrect h api (From_String s) i")
    case (Inl e)
    with i show ?thesis by (intro bad_signer [of i e]) (simp_all add: match_asDerivative_def)
  next
    case acc: (Inr acc)
    show ?thesis
    proof (cases "build_detail bn idx s i (toString api acc) (js_index as 1)")
      case (Inl e)
      with i acc show ?thesis
        by (intro bad_inner [of i acc e])
          (simp_all add: match_asDerivative_def Let_def initial_state_def del: One_nat_def)
    next
      case (Inr d)
      with i acc show ?thesis
        by (intro emitted [of i acc d])
          (simp_all add: match_asDerivative_def Let_def initial_state_def del: One_nat_def)
    qed
  qed
qed

text \<open>The walk induction, for a call and for a sequence of nested calls.\<close>

lemma walk_check:
  fixes \<Phi> :: "state \<times> completion \<Rightarrow> bool"
  assumes "\<Phi> (initial_state, Returned)"
    and "\<And>a b c. \<Phi> (a, Returned) \<Longrightarrow> \<Phi> (b, c) \<Longrightarrow> \<Phi> (combine a b, c)"
    and "depth = 0 \<Longrightarrow> call_section cm = ''utility'' \<Longrightarrow>
           \<Phi> (tally_utilityMethod (call_method cm) initial_state, Returned)"
    and "\<And>m as. (m, as) \<in> set (call_tree cm args) \<Longrightarrow> is_asDerivative m \<Longrightarrow>
           \<Phi> (match_asDerivative h as api bn idx s initial_state)"
    and "\<And>m as e. (m, as) \<in> set (call_tree cm args) \<Longrightarrow> is_batch m \<Longrightarrow>
           callsArr_of (js_index as 0) = Inl e \<Longrightarrow> \<Phi> (initial_state, Thrown e)"
  shows "\<Phi> (checkAsDerivative h cm args api bn idx s depth initial_state)"
  using walk_induct_aux(1) [of \<Phi> depth cm args h api bn idx s] assms by blast

lemma walk_forEach:
  fixes \<Phi> :: "state \<times> completion \<Rightarrow> bool"
  assumes "\<Phi> (initial_state, Returned)"
    and "\<And>a b c. \<Phi> (a, Returned) \<Longrightarrow> \<Phi> (b, c) \<Longrightarrow> \<Phi> (combine a b, c)"
    and "0 < depth"
    and "\<And>m as. (m, as) \<in> set (call_forest xs) \<Longrightarrow> is_asDerivative m \<Longrightarrow>
           \<Phi> (match_asDerivative h as api bn idx s initial_state)"
    and "\<And>m as e. (m, as) \<in> set (call_forest xs) \<Longrightarrow> is_batch m \<Longrightarrow>
           callsArr_of (js_index as 0) = Inl e \<Longrightarrow> \<Phi> (initial_state, Thrown e)"
  shows "\<Phi> (forEach_nested h xs api bn idx s depth initial_state)"
  using walk_induct_aux(2) [of \<Phi> depth xs h api bn idx s] assms by blast


lemma translates_snd: "translates f \<Longrightarrow> snd (f st) = snd (f initial_state)"
  using translatesD [of f st] by simp

lemma match_records:
  "\<forall>r \<in> set (details (fst (match_asDerivative h as api bn idx s initial_state))).
     d_block r = bn \<and> d_extrinsicIndex r = idx \<and> d_signer r = s \<and> reproducible h api r"
proof (cases rule: match_asDerivative_cases [where as = as and h = h and api = api and s = s and bn = bn and idx = idx])
  case (emitted i acc d)
  then show ?thesis
    using build_detail_fields [OF emitted(3)] by (simp add: reproducible_def)
qed simp_all

lemma walk_records:
  "\<forall>r \<in> set (details (fst (checkAsDerivative h cm args api bn idx s depth initial_state))).
     d_block r = bn \<and> d_extrinsicIndex r = idx \<and> d_signer r = s \<and> reproducible h api r"
proof -
  let ?\<Phi> = "\<lambda>p :: state \<times> completion. \<forall>r \<in> set (details (fst p)).
     d_block r = bn \<and> d_extrinsicIndex r = idx \<and> d_signer r = s \<and> reproducible h api r"
  have "?\<Phi> (checkAsDerivative h cm args api bn idx s depth initial_state)"
  proof (rule walk_check [of ?\<Phi>])
    show "?\<Phi> (match_asDerivative h as api bn idx s initial_state)" for as
      by (rule match_records)
  qed auto
  then show ?thesis .
qed











lemma walk_no_match_forEach:
  assumes "0 < depth"
    and "\<And>m as. (m, as) \<in> set (call_forest xs) \<Longrightarrow> \<not> is_asDerivative m"
  shows "fst (forEach_nested h xs api bn idx s depth initial_state) = initial_state"
proof -
  let ?\<Phi> = "\<lambda>p :: state \<times> completion. fst p = initial_state"
  have "?\<Phi> (forEach_nested h xs api bn idx s depth initial_state)"
    by (rule walk_forEach [of ?\<Phi>]) (use assms in auto)
  then show ?thesis .
qed



lemma walk_state:
  "checkAsDerivative h cm args api bn idx s depth st
     = (combine st (fst (checkAsDerivative h cm args api bn idx s depth initial_state)),
        snd (checkAsDerivative h cm args api bn idx s depth initial_state))"
  by (rule translatesD [OF translates_check])



text \<open>
  Claim C5. A batch whose first argument is absent, or null, makes the matcher throw: the
  read of \<^verbatim>\<open>callsVec.toArray\<close> (line 97) is not guarded, unlike the reads in
  \<^verbatim>\<open>debugBlock\<close> (line 210) and in findAsDerivative.js (line 70). The arguments
  \<open>[]\<close> are what \<^verbatim>\<open>main\<close> passes for an extrinsic without \<^verbatim>\<open>args\<close> (line 317).
\<close>

theorem batch_without_sequence_throws:
  "checkAsDerivative blake2AsU8a \<lparr>call_section = ''utility'', call_method = ''batch''\<rparr> []
      api blockNumber extrinsicIndex signer 0 st
     = (tally_utilityMethod ''batch'' st, Thrown TypeError)
   \<and> checkAsDerivative blake2AsU8a \<lparr>call_section = ''utility'', call_method = ''batchAll''\<rparr> [Null]
      api blockNumber extrinsicIndex signer 0 st
     = (tally_utilityMethod ''batchAll'' st, Thrown TypeError)"
  by (simp add: checkAsDerivative.simps js_index_def callsArr_of_def)

text \<open>
  For a first argument that is another value without \<^verbatim>\<open>toArray\<close> the fallback to the
  empty array works: the visit returns and writes nothing.
\<close>

lemma batch_other_value_returns:
  assumes "is_batch cm"
    and "js_index callArgs 0 = Codec_Num n \<or> js_index callArgs 0 = Codec_Other t
         \<or> js_index callArgs 0 = Codec_Call m as"
  shows "checkAsDerivative blake2AsU8a cm callArgs api blockNumber extrinsicIndex signer depth st
     = (if depth = 0 then tally_utilityMethod (call_method cm) st else st, Returned)"
  using assms by (auto simp: checkAsDerivative.simps is_batch_def callsArr_of_def)

text \<open>
  Claim C7, as amended. A walk over a call tree with no asDerivative call of the utility
  section writes no detail and leaves \<^verbatim>\<open>counters\<close> as they were, however it completes.
  The state it reaches differs from the state it started from only by the debug tally: a
  call of the utility section visited at depth 0 increments its entry of
  \<^verbatim>\<open>debugCounters.utilityMethods\<close>; every other non-matching call changes nothing.
\<close>

theorem no_asDerivative_no_match:
  assumes none: "\<forall>(m, as) \<in> set (call_tree cm args). \<not> is_asDerivative m"
  shows "fst (checkAsDerivative blake2AsU8a cm args api blockNumber extrinsicIndex signer depth st)
           = (if depth = 0 \<and> call_section cm = ''utility''
              then tally_utilityMethod (call_method cm) st else st)
       \<and> details (fst (checkAsDerivative blake2AsU8a cm args api blockNumber extrinsicIndex signer depth st))
           = details st
       \<and> counters_total (fst (checkAsDerivative blake2AsU8a cm args api blockNumber extrinsicIndex signer depth st))
           = counters_total st
       \<and> counters_unique (fst (checkAsDerivative blake2AsU8a cm args api blockNumber extrinsicIndex signer depth st))
           = counters_unique st"
proof -
  let ?st0 = "if depth = 0 \<and> call_section cm = ''utility''
              then tally_utilityMethod (call_method cm) st else st"
  have notD: "\<not> is_asDerivative cm" using none call_tree_self [of cm args] by blast
  have "fst (checkAsDerivative blake2AsU8a cm args api blockNumber extrinsicIndex signer depth st) = ?st0"
  proof (cases "is_batch cm")
    case False
    with notD show ?thesis
      by (auto simp: checkAsDerivative.simps is_asDerivative_def is_batch_def Let_def)
  next
    case batch: True
    show ?thesis
    proof (cases "callsArr_of (js_index args 0)")
      case (Inl e)
      with notD batch show ?thesis
        by (auto simp: checkAsDerivative.simps is_asDerivative_def is_batch_def Let_def)
    next
      case (Inr callsArr)
      have "\<And>m as. (m, as) \<in> set (call_forest callsArr) \<Longrightarrow> \<not> is_asDerivative m"
        using none call_tree_batch [OF batch Inr] by auto
      then have "fst (forEach_nested blake2AsU8a callsArr api blockNumber extrinsicIndex signer
            (depth + 1) initial_state) = initial_state"
        by (intro walk_no_match_forEach) simp_all
      then have "fst (forEach_nested blake2AsU8a callsArr api blockNumber extrinsicIndex signer
            (depth + 1) ?st0) = ?st0"
        using translatesD [OF translates_forEach, of blake2AsU8a callsArr api blockNumber
            extrinsicIndex signer "depth + 1" ?st0]
        by simp
      with notD batch Inr show ?thesis
        by (auto simp: checkAsDerivative.simps is_asDerivative_def is_batch_def Let_def)
    qed
  qed
  then show ?thesis by simp
qed

text \<open>A batch of a remark and a batchAll of two remarks.\<close>

theorem no_asDerivative_no_match_witness:
  "fst (checkAsDerivative checksum_hash \<lparr>call_section = ''utility'', call_method = ''batch''\<rparr>
          [Codec_Vec [remark_call, plain_batch]] strict_api 100 0 alice 0 initial_state)
     = tally_utilityMethod ''batch'' initial_state
   \<and> details (fst (checkAsDerivative checksum_hash \<lparr>call_section = ''utility'', call_method = ''batch''\<rparr>
          [Codec_Vec [remark_call, plain_batch]] strict_api 100 0 alice 0 initial_state)) = []"
proof -
  have "\<forall>(m, as) \<in> set (call_tree \<lparr>call_section = ''utility'', call_method = ''batch''\<rparr>
          [Codec_Vec [remark_call, plain_batch]]). \<not> is_asDerivative m"
    by (simp add: call_tree_unfold is_batch_def is_asDerivative_def js_index_def callsArr_of_def
        remark_call_def plain_batch_def)
  from no_asDerivative_no_match [OF this, of checksum_hash strict_api 100 0 alice 0 initial_state]
  show ?thesis by simp
qed

text \<open>
  Claim C7 as stated fails: a non-matching call \<^verbatim>\<open>utility.forceBatch\<close> at depth 0 changes
  the process-wide debug counters.
\<close>

theorem debug_tally_is_a_side_effect:
  "debug_utilityMethods (fst (checkAsDerivative checksum_hash
        \<lparr>call_section = ''utility'', call_method = ''forceBatch''\<rparr> [] strict_api 100 0 alice 0
        initial_state)) ''forceBatch'' = Some 1
   \<and> debug_utilityMethods initial_state ''forceBatch'' = None"
  by (simp add: checkAsDerivative.simps tally_utilityMethod_def initial_state_def)


section \<open>Nested calls and extrinsics without signature\<close>

lemma process_extrinsic_signed_utility:
  assumes "ex_signer ex = Some signer" and "call_section (ex_method ex) = ''utility''"
  shows "snd (process_extrinsic h api bn idx ex st)
           = snd (checkAsDerivative h (ex_method ex) (extrinsic_args ex) api bn idx signer 0 initial_state)
       \<and> new_details st (fst (process_extrinsic h api bn idx ex st))
           = details (fst (checkAsDerivative h (ex_method ex) (extrinsic_args ex) api bn idx signer 0
               initial_state))"
  using assms
    walk_state [of h "ex_method ex" "extrinsic_args ex" api bn idx signer 0
      "st\<lparr>debug_totalExtrinsics := debug_totalExtrinsics st + 1,
           debug_utilityExtrinsics := debug_utilityExtrinsics st + 1\<rparr>"]
  by (simp add: process_extrinsic_def new_details_def Let_def)

text \<open>
  The quick scan of findAsDerivative.js counts a top-level asDerivative and, for a
  top-level batch, the direct elements of its sequence that show as
  \<^verbatim>\<open>utility.asDerivative\<close>; it does not look inside the elements.
\<close>

lemma found_fold_count:
  "found (fold count_shown_call cs q)
     = found q + length (filter (\<lambda>c. c = Some (''utility'', ''asDerivative'')) cs)"
  by (induction cs arbitrary: q) (simp_all add: count_shown_call_def)

lemma quick_scan_batch_found:
  assumes "is_batch (ex_method ex)" and "ex_method_args ex = Some args"
    and "quick_scan_extrinsic shown ex q = Inr q'"
  shows "found q' = found q +
     (case shown (js_index args 0) of
        None \<Rightarrow> 0
      | Some cs \<Rightarrow> length (filter (\<lambda>c. c = Some (''utility'', ''asDerivative'')) cs))"
  using assms
  by (auto simp: quick_scan_extrinsic_def Let_def is_batch_def found_fold_count
      split: if_splits option.splits)

lemma derive_alice_5:
  "deriveAccountCorrect checksum_hash strict_api (From_String alice) 5 = Inr (replicate 32 34)"
  by (simp add: deriveAccountCorrect_unfold strict_api_def alice_def checksum_hash_def
      DERIVATION_PREFIX_def stringToU8a_def to_uint8_def)

text \<open>
  Below the top level, a visit of a string, which is what \<^verbatim>\<open>nested.method\<close> is for
  a decoded call, passes none of the tests of lines 60, 66 and 93 and returns.
\<close>

lemma visit_of_string_reads:
  "0 < depth \<Longrightarrow> checkAsDerivative h string_reads args api bn idx s depth st = (st, Returned)"
  by (simp add: checkAsDerivative.simps string_reads_def)

lemma forEach_library_calls:
  "0 < depth \<Longrightarrow>
   forEach_nested h (map (\<lambda>(section, method, args). library_call section method args) calls)
     api bn idx s depth st = (st, Returned)"
  by (induction calls) (auto simp: library_call_def visit_of_string_reads)

text \<open>
  Claim C4. The recursive call on line 109 passes \<^verbatim>\<open>nested.method\<close>, where the
  top-level call on line 315 passes the call itself (\<^verbatim>\<open>ex.method\<close>). For a decoded call \<^verbatim>\<open>nested.method\<close> is the name of its action,
  a string without \<^verbatim>\<open>section\<close>, so no nested call is recognised: the signed extrinsic
  \<^verbatim>\<open>utility.batch([system.remark, utility.batchAll([system.remark,
  utility.asDerivative(5, system.remark), system.remark])])\<close> is processed without an
  exception and writes no detail, and the same holds for every sequence of decoded calls
  inside a top-level batch or batchAll, whatever the calls are.
\<close>

theorem nested_asDerivative_not_found:
  "process_extrinsic checksum_hash strict_api 101 3 nested_batch_extrinsic initial_state
     = (tally_utilityMethod ''batch''
          (initial_state\<lparr>debug_totalExtrinsics := 1, debug_utilityExtrinsics := 1\<rparr>), Returned)
   \<and> details (fst (process_extrinsic checksum_hash strict_api 101 3 nested_batch_extrinsic
        initial_state)) = []
   \<and> counters_total (fst (process_extrinsic checksum_hash strict_api 101 3 nested_batch_extrinsic
        initial_state)) = 0
   \<and> checkAsDerivative blake2AsU8a \<lparr>call_section = ''utility'', call_method = ''batch''\<rparr>
        [Codec_Vec (map (\<lambda>(section, method, args). library_call section method args) calls)]
        api blockNumber extrinsicIndex signer 0 st
       = (tally_utilityMethod ''batch'' st, Returned)
   \<and> checkAsDerivative blake2AsU8a \<lparr>call_section = ''utility'', call_method = ''batchAll''\<rparr>
        [Codec_Vec (map (\<lambda>(section, method, args). library_call section method args) calls)]
        api blockNumber extrinsicIndex signer 0 st
       = (tally_utilityMethod ''batchAll'' st, Returned)"
proof -
  have batch: "checkAsDerivative h \<lparr>call_section = ''utility'', call_method = ''batch''\<rparr>
        [Codec_Vec (map (\<lambda>(section, method, args). library_call section method args) cs)]
        api' bn idx s 0 st'
       = (tally_utilityMethod ''batch'' st', Returned)" for h cs api' bn idx s st'
    by (simp add: checkAsDerivative.simps js_index_def callsArr_of_def forEach_library_calls)
  have batchAll: "checkAsDerivative h \<lparr>call_section = ''utility'', call_method = ''batchAll''\<rparr>
        [Codec_Vec (map (\<lambda>(section, method, args). library_call section method args) cs)]
        api' bn idx s 0 st'
       = (tally_utilityMethod ''batchAll'' st', Returned)" for h cs api' bn idx s st'
    by (simp add: checkAsDerivative.simps js_index_def callsArr_of_def forEach_library_calls)
  have top: "checkAsDerivative checksum_hash \<lparr>call_section = ''utility'', call_method = ''batch''\<rparr>
        nested_batch_args strict_api 101 3 alice 0 st'
       = (tally_utilityMethod ''batch'' st', Returned)" for st'
    using batch [of checksum_hash
        "[(''system'', ''remark'', [Codec_Other ''0x00'']),
          (''utility'', ''batchAll'',
             [Codec_Vec
                [library_call ''system'' ''remark'' [Codec_Other ''0x00''],
                 library_call ''utility'' ''asDerivative''
                   [Codec_Num 5, library_call ''system'' ''remark'' [Codec_Other ''0x00'']],
                 library_call ''system'' ''remark'' [Codec_Other ''0x00'']]])]"
        strict_api 101 3 alice st']
    by (simp add: nested_batch_args_def)
  have run: "process_extrinsic checksum_hash strict_api 101 3 nested_batch_extrinsic initial_state
     = (tally_utilityMethod ''batch''
          (initial_state\<lparr>debug_totalExtrinsics := 1, debug_utilityExtrinsics := 1\<rparr>), Returned)"
    by (simp add: process_extrinsic_def nested_batch_extrinsic_def extrinsic_args_def top
        del: One_nat_def)
  show ?thesis by (simp add: run batch batchAll)
qed

text \<open>
  The two guards of \<^verbatim>\<open>main\<close> (lines 301 and 303 to 307): an extrinsic whose signer is
  falsy, or whose call is not in the utility section, is counted and not given to the
  matcher.
\<close>

lemma guarded_extrinsic_not_matched:
  assumes "ex_signer ex = None \<or> call_section (ex_method ex) \<noteq> ''utility''"
  shows "process_extrinsic blake2AsU8a api blockNumber idx ex st
           = (st\<lparr>debug_totalExtrinsics := debug_totalExtrinsics st + 1\<rparr>, Returned)"
  using assms by (auto simp: process_extrinsic_def Let_def split: option.split)

lemma derive_unsigned_5:
  "deriveAccountCorrect checksum_hash strict_api (From_String unsigned_signer) 5 = Inr (replicate 32 171)"
  by (simp add: deriveAccountCorrect_unfold strict_api_def unsigned_signer_def checksum_hash_def
      DERIVATION_PREFIX_def stringToU8a_def to_uint8_def)

text \<open>
  Claim C10. The guard on line 301 tests \<^verbatim>\<open>ex.signer\<close>, which the client library sets
  for every extrinsic: without a signature it is the address of 32 zero bytes, a truthy
  object. The guard therefore does not stop an extrinsic without signature: its call
  \<^verbatim>\<open>utility.asDerivative(5, system.remark)\<close> is given to the matcher, counted, and
  reported with the zero address as signer.
\<close>

theorem unsigned_extrinsic_is_matched:
  "ex_signer unsigned_asDerivative_extrinsic = Some unsigned_signer
   \<and> snd (process_extrinsic checksum_hash strict_api 100 0 unsigned_asDerivative_extrinsic
        initial_state) = Returned
   \<and> details (fst (process_extrinsic checksum_hash strict_api 100 0 unsigned_asDerivative_extrinsic
        initial_state))
       = [\<lparr>d_block = 100, d_extrinsicIndex = 0, d_signer = unsigned_signer, d_derivativeIndex = 5,
           d_derivedAccount = toString strict_api (replicate 32 171),
           d_innerCall = ''undefined.undefined'', d_innerCallArgs = [Codec_Other ''0x00'']\<rparr>]
   \<and> counters_total (fst (process_extrinsic checksum_hash strict_api 100 0
        unsigned_asDerivative_extrinsic initial_state)) = 1
   \<and> counters_unique (fst (process_extrinsic checksum_hash strict_api 100 0
        unsigned_asDerivative_extrinsic initial_state)) = {toString strict_api (replicate 32 171)}"
  by (simp add: process_extrinsic_def unsigned_asDerivative_extrinsic_def extrinsic_args_def
      checkAsDerivative.simps match_asDerivative_def build_detail_def toNumber_def toHuman_def
      js_index_def library_call_def string_reads_def derive_unsigned_5 Let_def)

section \<open>The order of the scan\<close>

lemma translates_process_extrinsic: "translates (process_extrinsic h api bn idx ex)"
proof (cases "ex_signer ex")
  case None
  show ?thesis
    by (rule translatesI [of _ "initial_state\<lparr>debug_totalExtrinsics := 1\<rparr>" Returned])
      (simp add: process_extrinsic_def None combine_def initial_state_def)
next
  case (Some signer)
  show ?thesis
  proof (cases "call_section (ex_method ex) = ''utility''")
    case False
    show ?thesis
      by (rule translatesI [of _ "initial_state\<lparr>debug_totalExtrinsics := 1\<rparr>" Returned])
        (simp add: process_extrinsic_def Some False combine_def initial_state_def)
  next
    case True
    let ?u = "\<lambda>st. st\<lparr>debug_totalExtrinsics := debug_totalExtrinsics st + 1,
                        debug_utilityExtrinsics := debug_utilityExtrinsics st + 1\<rparr>"
    have u: "?u st = combine st (?u initial_state)" for st
      by (simp add: combine_def initial_state_def)
    have "translates (\<lambda>st. checkAsDerivative h (ex_method ex) (extrinsic_args ex) api bn idx signer 0 (?u st))"
      by (rule translates_after [OF u translates_check])
    moreover have "process_extrinsic h api bn idx ex
        = (\<lambda>st. checkAsDerivative h (ex_method ex) (extrinsic_args ex) api bn idx signer 0 (?u st))"
      by (rule ext) (simp add: process_extrinsic_def Some True Let_def)
    ultimately show ?thesis by simp
  qed
qed

lemma translates_forEach_extrinsic: "translates (forEach_extrinsic h api bn idx exs)"
proof (induction exs arbitrary: idx)
  case Nil
  have "forEach_extrinsic h api bn idx [] = (\<lambda>st. (st, Returned))" by (rule ext) simp
  then show ?case using translates_return by simp
next
  case (Cons ex exs)
  have "forEach_extrinsic h api bn idx (ex # exs)
      = (\<lambda>st. case process_extrinsic h api bn idx ex st of
                 (st', Returned) \<Rightarrow> forEach_extrinsic h api bn (idx + 1) exs st'
               | (st', Thrown e) \<Rightarrow> (st', Thrown e))"
    by (rule ext) (simp del: One_nat_def add: Suc_eq_plus1)
  then show ?case
    using translates_bind [OF translates_process_extrinsic Cons.IH] by simp
qed

lemma translates_process_blocks: "translates (process_blocks h api blocks)"
proof (induction blocks)
  case Nil
  have "process_blocks h api [] = (\<lambda>st. (st, Returned))" by (rule ext) simp
  then show ?case using translates_return by simp
next
  case (Cons b blocks)
  obtain bn exs where b: "b = (bn, exs)" by (cases b)
  have "process_blocks h api (b # blocks)
      = (\<lambda>st. case forEach_extrinsic h api bn 0 exs st of
                 (st', Returned) \<Rightarrow> process_blocks h api blocks st'
               | (st', Thrown e) \<Rightarrow> (st', Thrown e))"
    by (rule ext) (simp add: b)
  then show ?case
    using translates_bind [OF translates_forEach_extrinsic Cons.IH] by simp
qed

lemma chunkArray_loop_concat:
  assumes "0 < n"
  shows "\<exists>cs. chunkArray_loop arr n i chunks = Some cs \<and> concat cs = concat chunks @ drop i arr"
proof (induction "length arr - i" arbitrary: i chunks rule: less_induct)
  case less
  show ?case
  proof (cases "i < length arr")
    case False
    then show ?thesis by (subst chunkArray_loop.simps) simp
  next
    case True
    then have "length arr - (i + n) < length arr - i" using assms by arith
    from less [OF this, of "chunks @ [take n (drop i arr)]"]
    obtain cs where cs: "chunkArray_loop arr n (i + n) (chunks @ [take n (drop i arr)]) = Some cs"
      and c: "concat cs = concat (chunks @ [take n (drop i arr)]) @ drop (i + n) arr"
      by blast
    have "take n (drop i arr) @ drop (i + n) arr = drop i arr"
      by (metis add.commute append_take_drop_id drop_drop)
    then have "concat cs = concat chunks @ drop i arr" using c by simp
    moreover have "chunkArray_loop arr n i chunks = Some cs"
      using True cs by (subst chunkArray_loop.simps) simp
    ultimately show ?thesis by blast
  qed
qed

lemma chunkArray_concat: "0 < n \<Longrightarrow> \<exists>cs. chunkArray arr n = Some cs \<and> concat cs = arr"
  using chunkArray_loop_concat [of n arr 0 "[]"] by (simp add: chunkArray_def)

lemma allBlocks_upto: "allBlocks startBlock endBlock = [startBlock .. endBlock]"
proof (rule nth_equalityI)
  show "length (allBlocks startBlock endBlock) = length [startBlock .. endBlock]"
    by (simp add: allBlocks_def)
next
  fix k assume "k < length (allBlocks startBlock endBlock)"
  then have k: "int k < endBlock - startBlock + 1" by (simp add: allBlocks_def)
  then have "[startBlock .. endBlock] ! k = startBlock + int k" by (intro nth_upto) simp
  moreover have "k < nat (endBlock - startBlock + 1)" using k by simp
  then have "allBlocks startBlock endBlock ! k = startBlock + int k"
    by (simp add: allBlocks_def)
  ultimately show "allBlocks startBlock endBlock ! k = [startBlock .. endBlock] ! k" by simp
qed

lemma map_throwing_all:
  "(\<forall>x \<in> set xs. f x = Inr (g x)) \<Longrightarrow> map_throwing f xs = Inr (map g xs)"
  by (induction xs) simp_all

lemma forEach_extrinsic_Cons:
  "snd (process_extrinsic h api bn idx ex initial_state) = Returned \<Longrightarrow>
   forEach_extrinsic h api bn idx (ex # exs) initial_state
     = (combine (fst (process_extrinsic h api bn idx ex initial_state))
          (fst (forEach_extrinsic h api bn (idx + 1) exs initial_state)),
        snd (forEach_extrinsic h api bn (idx + 1) exs initial_state))"
  using translatesD [OF translates_forEach_extrinsic, of h api bn "idx + 1" exs
      "fst (process_extrinsic h api bn idx ex initial_state)"]
  by (cases "process_extrinsic h api bn idx ex initial_state") (simp del: One_nat_def add: Suc_eq_plus1)

lemma process_extrinsic_records:
  "\<forall>r \<in> set (details (fst (process_extrinsic h api bn idx ex initial_state))). d_block r = bn"
proof (cases "\<exists>signer. ex_signer ex = Some signer \<and> call_section (ex_method ex) = ''utility''")
  case True
  then obtain signer where s: "ex_signer ex = Some signer"
    and u: "call_section (ex_method ex) = ''utility''" by blast
  show ?thesis
    using process_extrinsic_signed_utility [OF s u, of h api bn idx initial_state]
      walk_records [of h "ex_method ex" "extrinsic_args ex" api bn idx signer 0]
    by (simp add: new_details_def)
next
  case False
  then have "ex_signer ex = None \<or> call_section (ex_method ex) \<noteq> ''utility''"
    by (cases "ex_signer ex") auto
  then show ?thesis
    by (auto simp: process_extrinsic_def Let_def split: option.split)
qed

lemma forEach_extrinsic_records:
  "\<forall>r \<in> set (details (fst (forEach_extrinsic h api bn idx exs initial_state))). d_block r = bn"
proof (induction exs arbitrary: idx)
  case Nil
  show ?case by simp
next
  case (Cons ex exs)
  show ?case
  proof (cases "snd (process_extrinsic h api bn idx ex initial_state)")
    case Returned
    show ?thesis
      using process_extrinsic_records [of h api bn idx ex] Cons.IH [of "idx + 1"]
      by (auto simp: forEach_extrinsic_Cons [OF Returned] simp del: forEach_extrinsic.simps)
  next
    case (Thrown e)
    then have "forEach_extrinsic h api bn idx (ex # exs) initial_state
        = process_extrinsic h api bn idx ex initial_state"
      by (cases "process_extrinsic h api bn idx ex initial_state") simp
    then show ?thesis using process_extrinsic_records [of h api bn idx ex] by simp
  qed
qed

lemma process_blocks_details:
  assumes "\<forall>n \<in> set batch. snd (forEach_extrinsic h api n 0 (block_of n) initial_state) = Returned"
  shows "snd (process_blocks h api (zip batch (map block_of batch)) st) = Returned
       \<and> details (fst (process_blocks h api (zip batch (map block_of batch)) st))
           = details st @ concat (map (\<lambda>n. block_details h api n (block_of n)) batch)"
  using assms
proof (induction batch arbitrary: st)
  case Nil
  show ?case by simp
next
  case (Cons n batch)
  let ?E = "fst (forEach_extrinsic h api n 0 (block_of n) initial_state)"
  have "forEach_extrinsic h api n 0 (block_of n) st = (combine st ?E, Returned)"
    using translatesD [OF translates_forEach_extrinsic, of h api n 0 "block_of n" st] Cons.prems
    by simp
  then have "process_blocks h api (zip (n # batch) (map block_of (n # batch))) st
      = process_blocks h api (zip batch (map block_of batch)) (combine st ?E)"
    by simp
  then show ?case
    using Cons.IH [of "combine st ?E"] Cons.prems by (simp add: block_details_def)
qed

lemma process_batch_details:
  assumes "\<forall>n \<in> set batch. getBlock n = Inr (block_of n) \<and>
             snd (forEach_extrinsic h api n 0 (block_of n) initial_state) = Returned"
  shows "details (process_batch h api getBlock batch st)
           = details st @ concat (map (\<lambda>n. block_details h api n (block_of n)) batch)"
proof -
  have "map_throwing getBlock batch = Inr (map block_of batch)"
    using assms by (intro map_throwing_all) simp
  then show ?thesis
    using process_blocks_details [of batch h api block_of st] assms
    by (simp add: process_batch_def)
qed

lemma forEach_batch_details:
  assumes "\<forall>n \<in> set (concat batches). getBlock n = Inr (block_of n) \<and>
             snd (forEach_extrinsic h api n 0 (block_of n) initial_state) = Returned"
  shows "details (forEach_batch h api getBlock batches st)
           = details st @ concat (map (\<lambda>n. block_details h api n (block_of n)) (concat batches))"
  using assms
proof (induction batches arbitrary: st)
  case Nil
  show ?case by simp
next
  case (Cons batch batches)
  have "details (process_batch h api getBlock batch st)
      = details st @ concat (map (\<lambda>n. block_details h api n (block_of n)) batch)"
    using Cons.prems by (intro process_batch_details) simp
  then show ?case
    using Cons.IH [of "process_batch h api getBlock batch st"] Cons.prems by simp
qed

text \<open>
  Claim C8. The scan walks the block numbers \<open>startBlock, startBlock + 1, \<dots>, endBlock\<close>
  in this order, whatever the positive batch size. When every block of the range is fetched
  and processed without an exception, the details written by the scan are the details of
  the blocks, block after block in ascending order, each carrying the number of its block;
  within a block the details of an extrinsic come before those of the extrinsics listed
  after it. So a range in which a single block gives one detail yields exactly that detail,
  with the number of that block.
\<close>

theorem scan_in_block_order:
  assumes size: "0 < BATCH_SIZE"
    and blocks: "\<forall>n \<in> set (allBlocks startBlock endBlock).
        getBlock n = Inr (block_of n) \<and>
        snd (forEach_extrinsic blake2AsU8a api n 0 (block_of n) initial_state) = Returned"
  shows "allBlocks startBlock endBlock = [startBlock .. endBlock]
       \<and> (\<exists>st'. main_scan blake2AsU8a api getBlock BATCH_SIZE startBlock endBlock st = Some st'
            \<and> details st' = details st @
                 concat (map (\<lambda>n. block_details blake2AsU8a api n (block_of n))
                   (allBlocks startBlock endBlock)))
       \<and> (\<forall>r \<in> set (block_details blake2AsU8a api n exs). d_block r = n)
       \<and> (snd (process_extrinsic blake2AsU8a api n idx ex initial_state) = Returned \<longrightarrow>
            details (fst (forEach_extrinsic blake2AsU8a api n idx (ex # exs) initial_state))
              = details (fst (process_extrinsic blake2AsU8a api n idx ex initial_state))
                @ details (fst (forEach_extrinsic blake2AsU8a api n (idx + 1) exs initial_state)))"
proof -
  obtain batches where chunks: "chunkArray (allBlocks startBlock endBlock) BATCH_SIZE = Some batches"
    and all: "concat batches = allBlocks startBlock endBlock"
    using chunkArray_concat [OF size] by blast
  have "details (forEach_batch blake2AsU8a api getBlock batches st)
      = details st @ concat (map (\<lambda>n. block_details blake2AsU8a api n (block_of n)) (concat batches))"
    using blocks by (intro forEach_batch_details) (simp add: all)
  then have scan: "\<exists>st'. main_scan blake2AsU8a api getBlock BATCH_SIZE startBlock endBlock st = Some st'
      \<and> details st' = details st @
           concat (map (\<lambda>n. block_details blake2AsU8a api n (block_of n))
             (allBlocks startBlock endBlock))"
    by (simp add: main_scan_def chunks all)
  have rec: "\<forall>r \<in> set (block_details blake2AsU8a api n exs). d_block r = n"
    unfolding block_details_def by (rule forEach_extrinsic_records)
  have order: "snd (process_extrinsic blake2AsU8a api n idx ex initial_state) = Returned \<longrightarrow>
      details (fst (forEach_extrinsic blake2AsU8a api n idx (ex # exs) initial_state))
        = details (fst (process_extrinsic blake2AsU8a api n idx ex initial_state))
          @ details (fst (forEach_extrinsic blake2AsU8a api n (idx + 1) exs initial_state))"
    by (simp add: forEach_extrinsic_Cons del: forEach_extrinsic.simps)
  from allBlocks_upto scan rec order show ?thesis by blast
qed

lemma block_details_timestamp:
  "forEach_extrinsic checksum_hash strict_api n 0 [timestamp_extrinsic] initial_state
     = (initial_state\<lparr>debug_totalExtrinsics := 1\<rparr>, Returned)"
  by (simp add: process_extrinsic_def timestamp_extrinsic_def)

lemma block_details_101:
  "snd (forEach_extrinsic checksum_hash strict_api 101 0 [timestamp_extrinsic, asDerivative_extrinsic]
          initial_state) = Returned
   \<and> details (fst (forEach_extrinsic checksum_hash strict_api 101 0
          [timestamp_extrinsic, asDerivative_extrinsic] initial_state))
     = [\<lparr>d_block = 101, d_extrinsicIndex = 1, d_signer = alice, d_derivativeIndex = 5,
         d_derivedAccount = toString strict_api (replicate 32 34),
         d_innerCall = ''system.remark'', d_innerCallArgs = [Codec_Other ''0x00'']\<rparr>]"
  by (simp add: process_extrinsic_def timestamp_extrinsic_def asDerivative_extrinsic_def
      extrinsic_args_def checkAsDerivative.simps match_asDerivative_def build_detail_def
      toNumber_def toHuman_def js_index_def remark_call_def derive_alice_5 Let_def)

text \<open>
  Blocks 100, 101 and 102, where only block 101 holds an asDerivative extrinsic: the scan
  writes exactly one detail, with block number 101.
\<close>

theorem scan_in_block_order_witness:
  "\<exists>st'. main_scan checksum_hash strict_api demo_chain 20 100 102 initial_state = Some st'
     \<and> details st' =
          [\<lparr>d_block = 101, d_extrinsicIndex = 1, d_signer = alice, d_derivativeIndex = 5,
            d_derivedAccount = toString strict_api (replicate 32 34),
            d_innerCall = ''system.remark'', d_innerCallArgs = [Codec_Other ''0x00'']\<rparr>]"
proof -
  have ab: "allBlocks 100 102 = [100, 101, 102]"
    by (simp add: allBlocks_upto upto_rec1)
  have blocks: "\<forall>n \<in> set (allBlocks 100 102).
      demo_chain n = Inr (demo_block n) \<and>
      snd (forEach_extrinsic checksum_hash strict_api n 0 (demo_block n) initial_state) = Returned"
    unfolding ab using block_details_101 block_details_timestamp
    by (simp add: demo_chain_def demo_block_def)
  have "concat (map (\<lambda>n. block_details checksum_hash strict_api n (demo_block n)) (allBlocks 100 102))
      = [\<lparr>d_block = 101, d_extrinsicIndex = 1, d_signer = alice, d_derivativeIndex = 5,
            d_derivedAccount = toString strict_api (replicate 32 34),
            d_innerCall = ''system.remark'', d_innerCallArgs = [Codec_Other ''0x00'']\<rparr>]"
    unfolding ab using block_details_101 block_details_timestamp
    by (simp add: block_details_def demo_block_def)
  with scan_in_block_order [of 20 100 102 demo_chain demo_block checksum_hash strict_api initial_state,
      OF _ blocks]
  show ?thesis by simp
qed

section \<open>The counters over the whole scan\<close>



















end
